theory Spec2Isabelle
  imports Complex_Main "HOL-Library.Product_Lexorder" "HOL-Library.List_Lexorder"
    "HOL-Library.Char_ord" "HOL-Library.AList"
begin

section \<open>Biosolid dispatch: data manager, greedy solver and metrics replay\<close>

text \<open>
  The development embeds three Python modules: \<^verbatim>\<open>data_manager.py\<close> (class DataManager),
  \<^verbatim>\<open>solver.py\<close> (class GreedySolver) and \<^verbatim>\<open>calculate_metrics.py\<close>.

  Conventions of the embedding.
  \<^item> Numbers are exact rationals (\<^typ>\<open>rat\<close>): the Python literal \<^verbatim>\<open>1.1\<close> is \<open>11/10\<close>,
    \<^verbatim>\<open>0.2\<close> is \<open>1/5\<close>. Rounding of binary floating point and NaN cells are outside the model.
  \<^item> A date is its day ordinal (\<^typ>\<open>nat\<close>); \<^verbatim>\<open>strftime('%Y-%m-%d')\<close> is injective on dates,
    so a date string is modelled by the same ordinal.
  \<^item> Identifiers of plants, farms and zones are strings.
  \<^item> A raised Python exception is a value of type \<open>py_error\<close>.
\<close>

subsection \<open>Records of the input tables\<close>

datatype py_error = IndexError | KeyError | ZeroDivisionError | TypeError | EmptyDataError

record config =
  truck_capacity_tons :: rat
  nitrogen_content_kg_per_ton_biosolid :: rat
  stp_overflow_penalty_kg_co2_per_ton :: rat
  synthetic_n_offset_credit_kg_co2_per_kg_n :: rat
  soil_organic_carbon_gain_kg_co2_per_kg_biosolid :: rat
  diesel_emission_factor_kg_co2_per_km :: rat
  leaching_penalty_kg_co2_per_kg_excess_n :: rat
  rain_lock_threshold_mm :: rat
  forecast_window_days :: nat
  year :: nat

text \<open>One row of \<^verbatim>\<open>stp_registry.csv\<close>.\<close>

record plant =
  stp_id :: string
  lat :: rat
  lon :: rat
  daily_output_tons :: rat
  storage_max_tons :: rat

text \<open>One row of \<^verbatim>\<open>farm_locations.csv\<close>.\<close>

record farm =
  farm_id :: string
  farm_lat :: rat
  farm_lon :: rat
  zone :: string

text \<open>
  The attributes of a DataManager. \<open>weather_df\<close> is wide: a date and one rainfall column
  per zone (\<open>weather_zones\<close> lists the columns other than the date). \<open>demand_df\<close> is
  wide too: a date and one demand cell per farm column. \<open>distance_matrix\<close> and
  \<open>rain_lock_matrix\<close> are the two dictionaries computed by the constructor.
\<close>

record data_manager =
  config :: config
  stp_df :: "plant list"
  farm_df :: "farm list"
  weather_zones :: "string list"
  weather_df :: "(nat \<times> (string \<Rightarrow> rat)) list"
  demand_df :: "(nat \<times> (string \<rightharpoonup> rat)) list"
  distance_matrix :: "string \<times> string \<rightharpoonup> rat"
  rain_lock_matrix :: "nat \<rightharpoonup> (string \<rightharpoonup> bool)"

subsection \<open>DataManager\<close>

text \<open>
  \<^verbatim>\<open>_compute_distance_matrix\<close>: one entry per (plant row, farm row), a later row with the
  same pair of ids overwriting an earlier one. \<^verbatim>\<open>haversine_distance\<close> is imported from
  the module \<^verbatim>\<open>utils\<close>, which is not embedded; it is the parameter \<open>hav\<close>.
\<close>

definition compute_distance_matrix ::
  "(rat \<Rightarrow> rat \<Rightarrow> rat \<Rightarrow> rat \<Rightarrow> rat) \<Rightarrow> plant list \<Rightarrow> farm list \<Rightarrow> (string \<times> string \<rightharpoonup> rat)" where
  "compute_distance_matrix hav stps farms =
     fold (\<lambda>stp dist_matrix.
        fold (\<lambda>fm dm'. dm'((stp_id stp, farm_id fm) \<mapsto> hav (lat stp) (lon stp) (farm_lat fm) (farm_lon fm)))
          farms dist_matrix)
       stps Map.empty"

text \<open>
  The forward rolling sum of pandas, \<^verbatim>\<open>rolling(FixedForwardWindowIndexer(window), min_periods=1).sum()\<close>,
  at row \<open>i\<close> of one column: the rows \<open>i .. i + window - 1\<close> that exist. With fewer than
  \<open>min_periods = 1\<close> rows in the window the cell is NaN, here \<open>None\<close>.
\<close>

definition forward_rolling_sum :: "nat \<Rightarrow> rat list \<Rightarrow> nat \<Rightarrow> rat option" where
  "forward_rolling_sum window col i =
     (let win = take window (drop i col)
      in if length win < 1 then None else Some (sum_list win))"

text \<open>\<^verbatim>\<open>rolling_sum > threshold\<close>: a comparison with NaN is False.\<close>

definition gt_threshold :: "rat option \<Rightarrow> rat \<Rightarrow> bool" where
  "gt_threshold cell threshold = (case cell of None \<Rightarrow> False | Some s \<Rightarrow> s > threshold)"

text \<open>
  \<^verbatim>\<open>_compute_rain_lock_matrix\<close>. \<^verbatim>\<open>set_index('date').sort_index()\<close> orders the rows by
  date; the stable insertion sort \<open>sort_key\<close> stands for it. The final loop writes one
  dictionary per row, keyed by the date string, a later row of the same date overwriting.
\<close>

definition compute_rain_lock_matrix ::
  "config \<Rightarrow> string list \<Rightarrow> (nat \<times> (string \<Rightarrow> rat)) list \<Rightarrow> (nat \<rightharpoonup> (string \<rightharpoonup> bool))" where
  "compute_rain_lock_matrix cfg zones weather =
     (let threshold = rain_lock_threshold_mm cfg;
          window = forecast_window_days cfg;
          rain_df = sort_key fst weather;
          is_locked = (\<lambda>i z. gt_threshold
             (forward_rolling_sum window (map (\<lambda>r. snd r z) rain_df) i) threshold)
      in fold (\<lambda>i lock_dict.
           lock_dict(fst (rain_df ! i) \<mapsto> (\<lambda>z. if z \<in> set zones then Some (is_locked i z) else None)))
           [0..<length rain_df] Map.empty)"

text \<open>The constructor: loads the tables and computes the two dictionaries.\<close>

definition DataManager ::
  "(rat \<Rightarrow> rat \<Rightarrow> rat \<Rightarrow> rat \<Rightarrow> rat) \<Rightarrow> config \<Rightarrow> plant list \<Rightarrow> farm list \<Rightarrow> string list \<Rightarrow>
   (nat \<times> (string \<Rightarrow> rat)) list \<Rightarrow> (nat \<times> (string \<rightharpoonup> rat)) list \<Rightarrow> data_manager" where
  "DataManager hav cfg stps farms zones weather demand =
     \<lparr>config = cfg, stp_df = stps, farm_df = farms, weather_zones = zones,
      weather_df = weather, demand_df = demand,
      distance_matrix = compute_distance_matrix hav stps farms,
      rain_lock_matrix = compute_rain_lock_matrix cfg zones weather\<rparr>"

text \<open>
  \<^verbatim>\<open>get_demand_for_day\<close>: the first row of \<open>demand_df\<close> with that date, as a fresh
  dictionary; \<^verbatim>\<open>.iloc[0]\<close> raises IndexError when no row has the date.
\<close>

definition get_demand_for_day :: "data_manager \<Rightarrow> nat \<Rightarrow> py_error + (string \<rightharpoonup> rat)" where
  "get_demand_for_day d date =
     (case filter (\<lambda>r. fst r = date) (demand_df d) of
        [] \<Rightarrow> Inl IndexError
      | row # _ \<Rightarrow> Inr (snd row))"

text \<open>
  \<^verbatim>\<open>get_farm_zone_map\<close>: a Python dictionary built from the farm rows in order. A key
  keeps the position of its first insertion and the value of its last, which is what
  \<open>AList.update\<close> does on an association list.
\<close>

definition get_farm_zone_map :: "data_manager \<Rightarrow> (string \<times> string) list" where
  "get_farm_zone_map d = fold (\<lambda>fm m. AList.update (farm_id fm) (zone fm) m) (farm_df d) []"

text \<open>\<^verbatim>\<open>d.get(k, 0)\<close> on a dictionary of numbers.\<close>

definition get0 :: "('k \<rightharpoonup> rat) \<Rightarrow> 'k \<Rightarrow> rat" where
  "get0 m k = (case m k of None \<Rightarrow> 0 | Some v \<Rightarrow> v)"

text \<open>
  \<^verbatim>\<open>rain_lock_matrix.get(date_str, {}).get(zone, False)\<close>, the lookup the solver makes.
\<close>

definition rain_locked :: "data_manager \<Rightarrow> nat \<Rightarrow> string \<Rightarrow> bool" where
  "rain_locked d date z =
     (case rain_lock_matrix d date of
        None \<Rightarrow> False
      | Some rain_locks \<Rightarrow> (case rain_locks z of None \<Rightarrow> False | Some b \<Rightarrow> b))"

subsection \<open>GreedySolver: state and trace\<close>

text \<open>One dictionary appended to \<^verbatim>\<open>self.solution\<close>.\<close>

record event =
  e_date :: nat
  e_stp_id :: string
  e_farm_id :: string
  tons_delivered :: rat

text \<open>
  The mutable state the solver works on: the attributes \<^verbatim>\<open>self.dm\<close>,
  \<^verbatim>\<open>self.stp_storage\<close> and \<^verbatim>\<open>self.solution\<close>, and \<open>daily_demands\<close>, the dictionary that
  \<^verbatim>\<open>_process_day\<close> fetches and hands by reference to every \<^verbatim>\<open>_dispatch_logic\<close> call of
  the day. \<open>stp_storage\<close> is only ever read at the ids of \<open>stp_df\<close>, the keys it is
  created with, so it is a total function.
\<close>

record solver =
  dm :: data_manager
  stp_storage :: "string \<Rightarrow> rat"
  solution :: "event list"
  daily_demands :: "string \<rightharpoonup> rat"

text \<open>
  A run is observed through its trace: \<open>now\<close> is the current state and \<open>past\<close> the
  states it went through, oldest first. Every write of the source is a \<open>commit\<close>; the
  three writes that make one truck dispatch (append the event, decrement the storage,
  decrement the demand) are one commit.
\<close>

record 's traced =
  now :: 's
  past :: "'s list"

definition commit :: "('s \<Rightarrow> 's) \<Rightarrow> 's traced \<Rightarrow> 's traced" where
  "commit f t = \<lparr>now = f (now t), past = past t @ [now t]\<rparr>"

definition states :: "'s traced \<Rightarrow> 's list" where
  "states t = past t @ [now t]"

text \<open>\<^verbatim>\<open>GreedySolver.__init__\<close>.\<close>

definition GreedySolver :: "data_manager \<Rightarrow> solver traced" where
  "GreedySolver d =
     \<lparr>now = \<lparr>dm = d, stp_storage = (\<lambda>_. 0), solution = [], daily_demands = Map.empty\<rparr>,
      past = []\<rparr>"

subsection \<open>GreedySolver: ranking the plants\<close>

text \<open>
  One entry of \<^verbatim>\<open>stp_status\<close> (the coordinates, which nothing reads afterwards, are
  left out). \<^verbatim>\<open>curr / max_s\<close> raises ZeroDivisionError on a plant of capacity 0.
\<close>

record stp_status =
  s_stp_id :: string
  current :: rat
  s_max :: rat
  excess :: rat
  fill_ratio :: rat

definition stp_status_row :: "solver \<Rightarrow> plant \<Rightarrow> py_error + stp_status" where
  "stp_status_row s stp =
     (let s_id = stp_id stp;
          curr = stp_storage s s_id;
          max_s = storage_max_tons stp;
          excess = max 0 (curr - max_s)
      in if max_s = 0 then Inl ZeroDivisionError
         else Inr \<lparr>s_stp_id = s_id, current = curr, s_max = max_s, excess = excess,
                   fill_ratio = curr / max_s\<rparr>)"

fun stp_status_rows :: "solver \<Rightarrow> plant list \<Rightarrow> py_error + stp_status list" where
  "stp_status_rows s [] = Inr []"
| "stp_status_rows s (stp # rest) =
     (case stp_status_row s stp of
        Inl e \<Rightarrow> Inl e
      | Inr st \<Rightarrow> (case stp_status_rows s rest of Inl e \<Rightarrow> Inl e | Inr sts \<Rightarrow> Inr (st # sts)))"

text \<open>
  \<^verbatim>\<open>stp_status.sort(key=lambda x: (x['excess'], x['fill_ratio']), reverse=True)\<close>: a
  stable sort, descending in the lexicographic order of the key pair. It is the stable
  ascending sort on the negated pair.
\<close>

definition sort_by_urgency :: "stp_status list \<Rightarrow> stp_status list" where
  "sort_by_urgency sts = sort_key (\<lambda>x. (- excess x, - fill_ratio x)) sts"

subsection \<open>GreedySolver: scoring and dispatch\<close>

record candidate =
  c_farm_id :: string
  c_dist :: rat
  score :: rat
  demand :: rat
  useful_n :: rat
  package_tons :: rat

text \<open>
  The body of the scoring loop of \<^verbatim>\<open>_dispatch_logic\<close> for one farm with a distance
  entry. \<open>credit\<close> is computed and never read; the score uses \<open>credits_seq\<close>.
\<close>

definition score_candidate ::
  "config \<Rightarrow> rat \<Rightarrow> (string \<rightharpoonup> rat) \<Rightarrow> string \<Rightarrow> rat \<Rightarrow> candidate" where
  "score_candidate cfg current_load demands fid dist_km =
     (let n_demand = get0 demands fid;
          package_tons = min (truck_capacity_tons cfg) current_load;
          package_n = package_tons * nitrogen_content_kg_per_ton_biosolid cfg;
          useful_n = min package_n n_demand;
          excess_n = max 0 (package_n - n_demand * (11 / 10));
          credit = useful_n * synthetic_n_offset_credit_kg_co2_per_kg_n cfg
                   + package_tons * 1000 * soil_organic_carbon_gain_kg_co2_per_kg_biosolid cfg / 1000 * 1000;
          credits_seq = package_tons * 1000 * (1 / 5);
          transport_emission = dist_km * diesel_emission_factor_kg_co2_per_km cfg;
          leaching_cost = excess_n * leaching_penalty_kg_co2_per_kg_excess_n cfg;
          net_score = useful_n * synthetic_n_offset_credit_kg_co2_per_kg_n cfg + credits_seq
                      - transport_emission - leaching_cost
      in \<lparr>c_farm_id = fid, c_dist = dist_km, score = net_score, demand = n_demand,
          useful_n = useful_n, package_tons = package_tons\<rparr>)"

text \<open>The scoring loop: farms without a distance entry are skipped.\<close>

definition build_candidates ::
  "data_manager \<Rightarrow> string \<Rightarrow> rat \<Rightarrow> (string \<rightharpoonup> rat) \<Rightarrow> string list \<Rightarrow> candidate list" where
  "build_candidates d sid current_load demands valid_farms =
     concat (map (\<lambda>fid. case distance_matrix d (sid, fid) of
                           None \<Rightarrow> []
                         | Some dist_km \<Rightarrow> [score_candidate (config d) current_load demands fid dist_km])
                 valid_farms)"

text \<open>\<^verbatim>\<open>candidates.sort(key=lambda x: x['score'], reverse=True)\<close>, stable.\<close>

definition sort_by_score :: "candidate list \<Rightarrow> candidate list" where
  "sort_by_score cands = sort_key (\<lambda>c. - score c) cands"

text \<open>One truck: the three writes at the end of the dispatch loop's body.\<close>

definition dispatch_truck :: "nat \<Rightarrow> string \<Rightarrow> string \<Rightarrow> solver \<Rightarrow> solver" where
  "dispatch_truck date_str sid fid s =
     (let cfg = config (dm s);
          ship_tons = min (truck_capacity_tons cfg) (stp_storage s sid);
          delivered_n = ship_tons * nitrogen_content_kg_per_ton_biosolid cfg
      in s\<lparr>solution := solution s @
              [\<lparr>e_date = date_str, e_stp_id = sid, e_farm_id = fid, tons_delivered = ship_tons\<rparr>],
            stp_storage := (stp_storage s)(sid := stp_storage s sid - ship_tons),
            daily_demands := (daily_demands s)(fid \<mapsto> max 0 (get0 (daily_demands s) fid - delivered_n))\<rparr>)"

text \<open>
  The greedy loop over the sorted candidates. \<^verbatim>\<open>break\<close> ends the loop, \<^verbatim>\<open>continue\<close>
  goes to the next candidate (the \<^verbatim>\<open>break\<close> written after the \<^verbatim>\<open>continue\<close> is never
  reached).
\<close>

fun greedy_dispatch :: "nat \<Rightarrow> stp_status \<Rightarrow> candidate list \<Rightarrow> solver traced \<Rightarrow> solver traced" where
  "greedy_dispatch date_str stp [] t = t"
| "greedy_dispatch date_str stp (cand # rest) t =
     (if stp_storage (now t) (s_stp_id stp) \<le> 0 then t
      else
        let is_urgent = stp_storage (now t) (s_stp_id stp) > s_max stp;
            is_profitable = score cand > 0
        in if \<not> is_urgent \<and> \<not> is_profitable then greedy_dispatch date_str stp rest t
           else greedy_dispatch date_str stp rest
                  (commit (dispatch_truck date_str (s_stp_id stp) (c_farm_id cand)) t))"

definition dispatch_logic :: "nat \<Rightarrow> string list \<Rightarrow> stp_status \<Rightarrow> solver traced \<Rightarrow> solver traced" where
  "dispatch_logic date_str valid_farms stp t =
     (let current_load = current stp
      in if current_load \<le> 0 then t
         else greedy_dispatch date_str stp
                (sort_by_score
                   (build_candidates (dm (now t)) (s_stp_id stp) current_load
                      (daily_demands (now t)) valid_farms))
                t)"

subsection \<open>GreedySolver: the day and the year\<close>

text \<open>Step 1 of \<^verbatim>\<open>_process_day\<close>, one plant row.\<close>

definition replenish :: "plant \<Rightarrow> solver \<Rightarrow> solver" where
  "replenish stp s =
     s\<lparr>stp_storage := (stp_storage s)(stp_id stp := stp_storage s (stp_id stp) + daily_output_tons stp)\<rparr>"

text \<open>Step 3: the farms whose zone is not locked on the date, in dictionary order.\<close>

definition valid_farms_on :: "data_manager \<Rightarrow> nat \<Rightarrow> string list" where
  "valid_farms_on d date =
     map fst (filter (\<lambda>(fid, z). \<not> rain_locked d date z) (get_farm_zone_map d))"

text \<open>
  \<^verbatim>\<open>_process_day\<close>. An exception leaves the solver object in the state it had reached;
  the result pairs the exception, if any, with the trace.
\<close>

definition process_day :: "nat \<Rightarrow> solver traced \<Rightarrow> py_error option \<times> solver traced" where
  "process_day date t =
     (let t1 = fold (\<lambda>stp. commit (replenish stp)) (stp_df (dm (now t))) t
      in case get_demand_for_day (dm (now t1)) date of
           Inl e \<Rightarrow> (Some e, t1)
         | Inr demands \<Rightarrow>
             (let t2 = commit (\<lambda>s. s\<lparr>daily_demands := demands\<rparr>) t1;
                  valid_farms = valid_farms_on (dm (now t2)) date
              in (case stp_status_rows (now t2) (stp_df (dm (now t2))) of
                    Inl e \<Rightarrow> (Some e, t2)
                  | Inr stp_status \<Rightarrow>
                      (None, fold (dispatch_logic date valid_farms) (sort_by_urgency stp_status) t2))))"

text \<open>
  \<^verbatim>\<open>pd.date_range(f"{year}-01-01", f"{year}-12-31")\<close> as day ordinals of the proleptic
  Gregorian calendar (1 is 0001-01-01).
\<close>

definition days_before_year :: "nat \<Rightarrow> nat" where
  "days_before_year y = 365 * (y - 1) + (y - 1) div 4 + (y - 1) div 400 - (y - 1) div 100"

definition year_dates :: "nat \<Rightarrow> nat list" where
  "year_dates y = [days_before_year y + 1 ..< days_before_year (y + 1) + 1]"

text \<open>The day loop of \<^verbatim>\<open>solve\<close>: the first exception ends it.\<close>

fun run_days :: "nat list \<Rightarrow> solver traced \<Rightarrow> py_error option \<times> solver traced" where
  "run_days [] t = (None, t)"
| "run_days (date # dates) t =
     (case process_day date t of
        (Some e, t') \<Rightarrow> (Some e, t')
      | (None, t') \<Rightarrow> run_days dates t')"

definition solve :: "solver traced \<Rightarrow> py_error option \<times> solver traced" where
  "solve t = run_days (year_dates (year (config (dm (now t))))) t"

subsection \<open>calculate_metrics: the replay of a solution\<close>

text \<open>
  The running totals of \<^verbatim>\<open>calculate_metrics\<close> and its own copy of the plant storage.
  The solution it reads is the list of rows of \<^verbatim>\<open>solution.csv\<close>.
\<close>

record tally =
  r_stp_storage :: "string \<Rightarrow> rat"
  total_transport_emission :: rat
  total_leaching_penalty :: rat
  total_overflow_penalty :: rat
  total_offset_gain :: rat
  total_sequestration_gain :: rat

text \<open>\<^verbatim>\<open>dm.distance_matrix.get((stp_id, farm_id), 0)\<close>.\<close>

definition row_dist :: "data_manager \<Rightarrow> event \<Rightarrow> rat" where
  "row_dist d row = get0 (distance_matrix d) (e_stp_id row, e_farm_id row)"

text \<open>
  Step 3, one row of the day's moves: transport emission and storage. The storage
  dictionary has the plant ids of the registry as its keys, so
  \<^verbatim>\<open>stp_storage[stp_id] -= tons\<close> raises KeyError on a row from an unregistered plant.
\<close>

definition process_move :: "data_manager \<Rightarrow> event \<Rightarrow> tally \<Rightarrow> py_error + tally" where
  "process_move d row a =
     (let num_trucks = 1;
          transport_emission =
            row_dist d row * diesel_emission_factor_kg_co2_per_km (config d) * num_trucks
      in if e_stp_id row \<in> set (map stp_id (stp_df d))
         then Inr (a\<lparr>total_transport_emission := total_transport_emission a + transport_emission,
                     r_stp_storage := (r_stp_storage a)
                        (e_stp_id row := r_stp_storage a (e_stp_id row) - tons_delivered row)\<rparr>)
         else Inl KeyError)"

text \<open>
  The loop over the day's moves. Its body ends by fetching the day's demand (a value it
  does not use), which raises IndexError when the demand table has no row for the date.
\<close>

fun process_moves :: "data_manager \<Rightarrow> nat \<Rightarrow> event list \<Rightarrow> tally \<Rightarrow> py_error + tally" where
  "process_moves d date [] a = Inr a"
| "process_moves d date (row # rows) a =
     (case process_move d row a of
        Inl e \<Rightarrow> Inl e
      | Inr a' \<Rightarrow>
          (case get_demand_for_day d date of
             Inl e \<Rightarrow> Inl e
           | Inr _ \<Rightarrow> process_moves d date rows a'))"

text \<open>
  \<^verbatim>\<open>moves.groupby('farm_id')['tons_delivered'].sum()\<close>: one total per farm id of the
  day's moves, the ids in sorted order.
\<close>

definition farm_totals :: "event list \<Rightarrow> (string \<times> rat) list" where
  "farm_totals moves =
     map (\<lambda>f. (f, sum_list (map tons_delivered (filter (\<lambda>r. e_farm_id r = f) moves))))
         (sort (remdups (map e_farm_id moves)))"

text \<open>The body of the loop over \<open>farm_totals\<close>.\<close>

definition credit_farm :: "config \<Rightarrow> (string \<rightharpoonup> rat) \<Rightarrow> string \<times> rat \<Rightarrow> tally \<Rightarrow> tally" where
  "credit_farm cfg demands ft a =
     (let delivered_tons = snd ft;
          delivered_n = delivered_tons * nitrogen_content_kg_per_ton_biosolid cfg;
          demand_n = get0 demands (fst ft);
          useful_n = min delivered_n demand_n;
          excess_n = max 0 (delivered_n - demand_n * (11 / 10));
          offset_gain = useful_n * synthetic_n_offset_credit_kg_co2_per_kg_n cfg;
          seq_gain = delivered_tons * 1000 * soil_organic_carbon_gain_kg_co2_per_kg_biosolid cfg;
          leaching = excess_n * leaching_penalty_kg_co2_per_kg_excess_n cfg
      in a\<lparr>total_offset_gain := total_offset_gain a + offset_gain,
            total_sequestration_gain := total_sequestration_gain a + seq_gain,
            total_leaching_penalty := total_leaching_penalty a + leaching\<rparr>)"

text \<open>Step 4, one plant row: penalise and dump what exceeds the capacity.\<close>

definition check_overflow :: "config \<Rightarrow> plant \<Rightarrow> tally \<Rightarrow> tally" where
  "check_overflow cfg stp a =
     (let s_id = stp_id stp;
          max_s = storage_max_tons stp
      in if r_stp_storage a s_id > max_s
         then (let excess_tons = r_stp_storage a s_id - max_s;
                   penalty = excess_tons * stp_overflow_penalty_kg_co2_per_ton cfg
               in a\<lparr>total_overflow_penalty := total_overflow_penalty a + penalty,
                     r_stp_storage := (r_stp_storage a)(s_id := max_s)\<rparr>)
         else a)"

definition update_flow :: "plant \<Rightarrow> tally \<Rightarrow> tally" where
  "update_flow stp a =
     a\<lparr>r_stp_storage := (r_stp_storage a)
          (stp_id stp := r_stp_storage a (stp_id stp) + daily_output_tons stp)\<rparr>"

text \<open>
  The body of the loop over \<open>all_dates\<close>. The demand of the day is fetched only when the
  day has moves.
\<close>

definition metrics_day :: "data_manager \<Rightarrow> event list \<Rightarrow> nat \<Rightarrow> tally \<Rightarrow> py_error + tally" where
  "metrics_day d sol date a =
     (let a1 = fold update_flow (stp_df d) a;
          moves = filter (\<lambda>r. e_date r = date) sol
      in if moves = [] then Inr (fold (check_overflow (config d)) (stp_df d) a1)
         else (case process_moves d date moves a1 of
                 Inl e \<Rightarrow> Inl e
               | Inr a2 \<Rightarrow>
                   (case get_demand_for_day d date of
                      Inl e \<Rightarrow> Inl e
                    | Inr demands \<Rightarrow>
                        (let a3 = fold (credit_farm (config d) demands) (farm_totals moves) a2
                         in Inr (fold (check_overflow (config d)) (stp_df d) a3)))))"

fun replay_days :: "data_manager \<Rightarrow> event list \<Rightarrow> nat list \<Rightarrow> tally \<Rightarrow> py_error + tally" where
  "replay_days d sol [] a = Inr a"
| "replay_days d sol (date # dates) a =
     (case metrics_day d sol date a of
        Inl e \<Rightarrow> Inl e
      | Inr a' \<Rightarrow> replay_days d sol dates a')"

text \<open>
  The figures computed after the loop, as the locals hold them when the function reaches
  the dictionary \<^verbatim>\<open>metrics\<close> (lines 20 to 187). \<open>nitrogen_precision\<close> and
  \<open>rain_lock_resilience\<close> (which need the column sums of the demand table and the
  calendar month) are not embedded, and the scoreboard's \<^verbatim>\<open>round\<close> is not applied:
  \<open>logistics_efficiency\<close> is the value of the variable of that name.
\<close>

record metrics =
  totals :: tally
  total_net_score :: rat
  total_delivered_tons :: rat
  total_delivered_n :: rat
  total_round_trip_km :: rat
  logistics_efficiency :: rat

definition sum_round_trip_km :: "data_manager \<Rightarrow> event list \<Rightarrow> rat" where
  "sum_round_trip_km d sol = sum_list (map (\<lambda>x. row_dist d x * 2) sol)"

text \<open>The totals and the storage dictionary before the first day.\<close>

definition initial_tally :: tally where
  "initial_tally =
     \<lparr>r_stp_storage = (\<lambda>_. 0), total_transport_emission = 0, total_leaching_penalty = 0,
      total_overflow_penalty = 0, total_offset_gain = 0, total_sequestration_gain = 0\<rparr>"

definition calculate_metrics :: "data_manager \<Rightarrow> event list \<Rightarrow> py_error + metrics" where
  "calculate_metrics d sol =
     (case replay_days d sol (year_dates (year (config d))) initial_tally of
        Inl e \<Rightarrow> Inl e
      | Inr a \<Rightarrow>
          (let net = (total_offset_gain a + total_sequestration_gain a)
                     - (total_transport_emission a + total_leaching_penalty a + total_overflow_penalty a);
               delivered_tons = sum_list (map tons_delivered sol);
               delivered_n = delivered_tons * nitrogen_content_kg_per_ton_biosolid (config d);
               round_trip_km = sum_round_trip_km d sol
           in Inr \<lparr>totals = a, total_net_score = net, total_delivered_tons = delivered_tons,
                    total_delivered_n = delivered_n, total_round_trip_km = round_trip_km,
                    logistics_efficiency =
                      (if round_trip_km > 0 then delivered_tons / round_trip_km else 0)\<rparr>))"

text \<open>
  The whole of \<^verbatim>\<open>calculate_metrics\<close>, from reading \<^verbatim>\<open>solution.csv\<close> to dumping the
  dictionary \<^verbatim>\<open>metrics\<close> as JSON.

  Exact rationals do not tell an integer column from a floating-point one, and the dump
  depends on it: \<^verbatim>\<open>json.dumps\<close> raises TypeError on a numpy \<^verbatim>\<open>int64\<close>, while a numpy
  \<^verbatim>\<open>float64\<close> is a Python float. The entries of \<^verbatim>\<open>metrics\<close> that are numpy scalars are
  \<^verbatim>\<open>total_delivered_tons\<close> (the sum of the solution's tons column, of that column's
  dtype; \<^verbatim>\<open>total_delivered_n_kg\<close> is a multiple of it), \<^verbatim>\<open>total_demand_n_kg\<close> (the grand
  total of the demand table, of dtype \<open>demand_dtype\<close>) and \<^verbatim>\<open>total_round_trip_km\<close> (twice
  the sum of the \<^verbatim>\<open>dist\<close> column); the other entries are Python numbers or quotients.
  The dtypes of the two tables' columns, which \<^verbatim>\<open>read_csv\<close> infers from the text of the
  files, are parameters. The \<^verbatim>\<open>dist\<close> column holds a float for every row with a distance
  entry (\<^verbatim>\<open>haversine_distance\<close> returns a float) and the integer default 0 for every
  other row, so it is an integer column exactly when no row has an entry.

  The solution file that the solver writes for an empty log has no columns, and
  \<^verbatim>\<open>read_csv\<close> raises EmptyDataError on it.
\<close>

datatype dtype = Int64 | Float64

definition dist_column_dtype :: "data_manager \<Rightarrow> event list \<Rightarrow> dtype" where
  "dist_column_dtype d sol =
     (if list_all (\<lambda>x. distance_matrix d (e_stp_id x, e_farm_id x) = None) sol
      then Int64 else Float64)"

definition calculate_metrics_run ::
  "dtype \<Rightarrow> dtype \<Rightarrow> data_manager \<Rightarrow> event list \<Rightarrow> py_error + metrics" where
  "calculate_metrics_run tons_dtype demand_dtype d sol =
     (if sol = [] then Inl EmptyDataError
      else (case calculate_metrics d sol of
              Inl e \<Rightarrow> Inl e
            | Inr m \<Rightarrow>
                if tons_dtype = Int64 \<or> demand_dtype = Int64 \<or> dist_column_dtype d sol = Int64
                then Inl TypeError
                else Inr m))"

section \<open>Predicates on traces and replays\<close>

text \<open>
  \<open>grows R t t'\<close>: the trace \<open>t'\<close> continues \<open>t\<close>, and every state it adds arises from
  its predecessor by a step in \<open>R\<close>.
\<close>

definition grows :: "('s \<Rightarrow> 's \<Rightarrow> bool) \<Rightarrow> 's traced \<Rightarrow> 's traced \<Rightarrow> bool" where
  "grows R t t' = (\<exists>new. states t' = states t @ new \<and> successively R (now t # new))"

text \<open>One truck leaves plant \<open>sid\<close>, which holds something.\<close>

definition truck_step :: "nat \<Rightarrow> string \<Rightarrow> solver \<Rightarrow> solver \<Rightarrow> bool" where
  "truck_step date_str sid s s' =
     (\<exists>fid. 0 < stp_storage s sid \<and> s' = dispatch_truck date_str sid fid s)"

text \<open>
  The three kinds of write the solver makes: a plant is replenished, the day's demand
  dictionary is fetched, a truck is dispatched.
\<close>

definition engine_step :: "data_manager \<Rightarrow> solver \<Rightarrow> solver \<Rightarrow> bool" where
  "engine_step d s s' =
     ((\<exists>stp\<in>set (stp_df d). s' = replenish stp s)
      \<or> (\<exists>demands. s' = s\<lparr>daily_demands := demands\<rparr>)
      \<or> (\<exists>date_str sid. truck_step date_str sid s s'))"

text \<open>
  The nitrogen that the events \<open>evs\<close> carried to farm \<open>f\<close>: for each of them the
  \<^verbatim>\<open>delivered_n = ship_tons * N_CONTENT\<close> of the dispatch loop.
\<close>

definition delivered_n_to :: "config \<Rightarrow> event list \<Rightarrow> string \<Rightarrow> rat" where
  "delivered_n_to cfg evs f =
     (\<Sum>e\<leftarrow>evs. if e_farm_id e = f
                then tons_delivered e * nitrogen_content_kg_per_ton_biosolid cfg else 0)"

text \<open>
  When a day of the replay ends without an exception: it has no moves, or the demand
  table has a row for the date and every move comes from a registered plant.
\<close>

definition day_replays :: "data_manager \<Rightarrow> event list \<Rightarrow> nat \<Rightarrow> bool" where
  "day_replays d sol date \<longleftrightarrow>
     (filter (\<lambda>r. e_date r = date) sol = []
      \<or> ((\<exists>dem. get_demand_for_day d date = Inr dem)
           \<and> (\<forall>r\<in>set (filter (\<lambda>r. e_date r = date) sol). e_stp_id r \<in> stp_id ` set (stp_df d))))"

section \<open>Example inputs\<close>

text \<open>
  Concrete tables on which the theorems below are instantiated. The constants are those
  of the challenge (10-ton trucks, 25 kg of nitrogen per ton, a 5-day rain window of
  30 mm); \<open>cfg_half\<close> differs from \<open>cfg_ex\<close> in the sequestration rate only.
\<close>

definition cfg_ex :: config where
  "cfg_ex = \<lparr>truck_capacity_tons = 10, nitrogen_content_kg_per_ton_biosolid = 25,
     stp_overflow_penalty_kg_co2_per_ton = 1000, synthetic_n_offset_credit_kg_co2_per_kg_n = 5,
     soil_organic_carbon_gain_kg_co2_per_kg_biosolid = 1 / 5,
     diesel_emission_factor_kg_co2_per_km = 9 / 10,
     leaching_penalty_kg_co2_per_kg_excess_n = 10, rain_lock_threshold_mm = 30,
     forecast_window_days = 5, year = 2025\<rparr>"

definition cfg_half :: config where
  "cfg_half = cfg_ex\<lparr>soil_organic_carbon_gain_kg_co2_per_kg_biosolid := 1 / 2\<rparr>"

text \<open>
  One plant that produces 25 tons a day and stores 20, two farms in two zones, three days
  of weather (40 mm on zone Z1 on the first day) and a demand row for every day of 2025.
  All distances are 7 km.
\<close>

definition dm_ex :: data_manager where
  "dm_ex = DataManager (\<lambda>lat1 lon1 lat2 lon2. 7) cfg_ex
     [\<lparr>stp_id = ''S1'', lat = 0, lon = 0, daily_output_tons = 25, storage_max_tons = 20\<rparr>]
     [\<lparr>farm_id = ''F_1'', farm_lat = 0, farm_lon = 0, zone = ''Z1''\<rparr>,
      \<lparr>farm_id = ''F_2'', farm_lat = 0, farm_lon = 0, zone = ''Z2''\<rparr>]
     [''Z1'', ''Z2'']
     [(739252, (\<lambda>z. if z = ''Z1'' then 40 else 0)), (739253, (\<lambda>z. 0)), (739254, (\<lambda>z. 0))]
     (map (\<lambda>date. (date, [''F_1'' \<mapsto> 100, ''F_2'' \<mapsto> 300])) (year_dates 2025))"

text \<open>A solution row towards a farm id that the registry, and so the distance matrix, lacks.\<close>

definition row_unknown_farm :: event where
  "row_unknown_farm = \<lparr>e_date = 739252, e_stp_id = ''S1'', e_farm_id = ''F_9'', tons_delivered = 10\<rparr>"

text \<open>The readings of the weather table of \<open>dm_ex\<close>, by day and zone.\<close>

text \<open>A solution row from a plant id that the registry lacks.\<close>

definition row_unknown_plant :: event where
  "row_unknown_plant = \<lparr>e_date = 739252, e_stp_id = ''S9'', e_farm_id = ''F_2'', tons_delivered = 10\<rparr>"

definition rain_ex :: "nat \<Rightarrow> string \<Rightarrow> rat" where
  "rain_ex dt z = (if dt = 739252 \<and> z = ''Z1'' then 40 else 0)"

text \<open>Solutions to replay: two trucks, and one truck, to farm F_2 on 2025-01-01.\<close>

definition two_trucks :: "event list" where
  "two_trucks = [\<lparr>e_date = 739252, e_stp_id = ''S1'', e_farm_id = ''F_2'', tons_delivered = 10\<rparr>,
                 \<lparr>e_date = 739252, e_stp_id = ''S1'', e_farm_id = ''F_2'', tons_delivered = 10\<rparr>]"

definition one_truck :: "event list" where
  "one_truck = [\<lparr>e_date = 739252, e_stp_id = ''S1'', e_farm_id = ''F_2'', tons_delivered = 10\<rparr>]"

text \<open>
  One plant over its capacity after the day's output, a single farm whose zone is
  rain-locked on 2025-01-01, and a demand row for every day of 2025.
\<close>

definition dm_locked :: data_manager where
  "dm_locked = DataManager (\<lambda>lat1 lon1 lat2 lon2. 7) cfg_ex
     [\<lparr>stp_id = ''S1'', lat = 0, lon = 0, daily_output_tons = 25, storage_max_tons = 20\<rparr>]
     [\<lparr>farm_id = ''F_1'', farm_lat = 0, farm_lon = 0, zone = ''Z1''\<rparr>]
     [''Z1'']
     [(739252, (\<lambda>z. 40))]
     (map (\<lambda>date. (date, [''F_1'' \<mapsto> 100])) (year_dates 2025))"

text \<open>
  The same plant with a single farm that is open (no weather rows at all) and demands
  nothing, so that a truck sent there scores below zero.
\<close>

definition dm_urgent :: data_manager where
  "dm_urgent = DataManager (\<lambda>lat1 lon1 lat2 lon2. 7) cfg_ex
     [\<lparr>stp_id = ''S1'', lat = 0, lon = 0, daily_output_tons = 25, storage_max_tons = 20\<rparr>]
     [\<lparr>farm_id = ''F_1'', farm_lat = 0, farm_lon = 0, zone = ''Z1''\<rparr>]
     [''Z1'']
     []
     [(739252, [''F_1'' \<mapsto> 0])]"

section \<open>Properties\<close>

subsection \<open>The scoring formula\<close>

lemma score_candidate_score:
  "score (score_candidate cfg current_load demands fid dist_km) =
     min (min (truck_capacity_tons cfg) current_load * nitrogen_content_kg_per_ton_biosolid cfg)
         (get0 demands fid)
       * synthetic_n_offset_credit_kg_co2_per_kg_n cfg
     + min (truck_capacity_tons cfg) current_load * 200
     - dist_km * diesel_emission_factor_kg_co2_per_km cfg
     - max 0 (min (truck_capacity_tons cfg) current_load * nitrogen_content_kg_per_ton_biosolid cfg
              - get0 demands fid * (11 / 10)) * leaching_penalty_kg_co2_per_kg_excess_n cfg"
  by (simp add: score_candidate_def Let_def)

lemma score_ignores_configured_sequestration:
  "score (score_candidate (cfg\<lparr>soil_organic_carbon_gain_kg_co2_per_kg_biosolid := r\<rparr>) cur dem f k)
   = score (score_candidate cfg cur dem f k)"
  by (simp add: score_candidate_def Let_def)

text \<open>
  C2. The claim: the score is credit minus transport minus leaching, the credit's
  sequestration term being package tons times the \<^emph>\<open>configured\<close> rate. The code adds
  \<open>package_tons * 1000 * 0.2\<close> whatever the configuration says. With a configured rate of
  \<open>1/2\<close>, a 10-ton package for a farm that demands 250 kg at a distance of 10 km scores
  3241 (useful nitrogen 250, no leaching, transport 9); the claimed formula gives 6241
  when the per-kg rate is scaled to tons, and 1246 when it is multiplied with the tons
  as written.
\<close>

theorem C2_score_uses_fixed_sequestration_rate:
  "score (score_candidate cfg_half 10 [''F_1'' \<mapsto> 250] ''F_1'' 10) = 3241
   \<and> useful_n (score_candidate cfg_half 10 [''F_1'' \<mapsto> 250] ''F_1'' 10) = 250
   \<and> package_tons (score_candidate cfg_half 10 [''F_1'' \<mapsto> 250] ''F_1'' 10) = 10
   \<and> 250 * synthetic_n_offset_credit_kg_co2_per_kg_n cfg_half
       + 10 * 1000 * soil_organic_carbon_gain_kg_co2_per_kg_biosolid cfg_half
       - 10 * diesel_emission_factor_kg_co2_per_km cfg_half
       - 0 * leaching_penalty_kg_co2_per_kg_excess_n cfg_half = 6241
   \<and> 250 * synthetic_n_offset_credit_kg_co2_per_kg_n cfg_half
       + 10 * soil_organic_carbon_gain_kg_co2_per_kg_biosolid cfg_half
       - 10 * diesel_emission_factor_kg_co2_per_km cfg_half
       - 0 * leaching_penalty_kg_co2_per_kg_excess_n cfg_half = 1246"
  by (simp add: score_candidate_def cfg_half_def cfg_ex_def get0_def Let_def)

subsection \<open>The replay: transport emission, distances and tons\<close>

lemma fold_update_flow_totals:
  "total_transport_emission (fold update_flow ps a) = total_transport_emission a"
  "total_offset_gain (fold update_flow ps a) = total_offset_gain a"
  "total_sequestration_gain (fold update_flow ps a) = total_sequestration_gain a"
  "total_leaching_penalty (fold update_flow ps a) = total_leaching_penalty a"
  by (induction ps arbitrary: a) (simp_all add: update_flow_def)

lemma fold_check_overflow_totals:
  "total_transport_emission (fold (check_overflow cfg) ps a) = total_transport_emission a"
  "total_offset_gain (fold (check_overflow cfg) ps a) = total_offset_gain a"
  "total_sequestration_gain (fold (check_overflow cfg) ps a) = total_sequestration_gain a"
  "total_leaching_penalty (fold (check_overflow cfg) ps a) = total_leaching_penalty a"
  by (induction ps arbitrary: a) (simp_all add: check_overflow_def Let_def)

lemma fold_credit_farm_transport:
  "total_transport_emission (fold (credit_farm cfg dem) fts a) = total_transport_emission a"
  by (induction fts arbitrary: a) (simp_all add: credit_farm_def Let_def)

lemma process_move_totals:
  assumes "process_move d row a = Inr a'"
  shows "total_transport_emission a' = total_transport_emission a
           + row_dist d row * diesel_emission_factor_kg_co2_per_km (config d)"
    and "total_offset_gain a' = total_offset_gain a"
    and "total_sequestration_gain a' = total_sequestration_gain a"
    and "total_leaching_penalty a' = total_leaching_penalty a"
  using assms by (auto simp: process_move_def Let_def split: if_splits)

lemma process_move_ok_iff:
  "(\<exists>a'. process_move d row a = Inr a') \<longleftrightarrow> e_stp_id row \<in> stp_id ` set (stp_df d)"
  by (simp add: process_move_def Let_def)

lemma process_moves_totals:
  assumes "process_moves d date ms a = Inr a'"
  shows "total_transport_emission a' = total_transport_emission a
           + (\<Sum>r\<leftarrow>ms. row_dist d r * diesel_emission_factor_kg_co2_per_km (config d))"
    and "total_offset_gain a' = total_offset_gain a"
    and "total_sequestration_gain a' = total_sequestration_gain a"
    and "total_leaching_penalty a' = total_leaching_penalty a"
  using assms
proof (induction ms arbitrary: a)
  case Nil
  { case 1 then show ?case by simp }
  { case 2 then show ?case by simp }
  { case 3 then show ?case by simp }
  { case 4 then show ?case by simp }
next
  case (Cons row rows)
  { case 1
    then obtain a1 where 1: "process_move d row a = Inr a1" "process_moves d date rows a1 = Inr a'"
      by (auto split: sum.splits)
    show ?case using Cons.IH(1) [OF 1(2)] process_move_totals(1) [OF 1(1)] by simp }
  { case 2
    then obtain a1 where 1: "process_move d row a = Inr a1" "process_moves d date rows a1 = Inr a'"
      by (auto split: sum.splits)
    show ?case using Cons.IH(2) [OF 1(2)] process_move_totals(2) [OF 1(1)] by simp }
  { case 3
    then obtain a1 where 1: "process_move d row a = Inr a1" "process_moves d date rows a1 = Inr a'"
      by (auto split: sum.splits)
    show ?case using Cons.IH(3) [OF 1(2)] process_move_totals(3) [OF 1(1)] by simp }
  { case 4
    then obtain a1 where 1: "process_move d row a = Inr a1" "process_moves d date rows a1 = Inr a'"
      by (auto split: sum.splits)
    show ?case using Cons.IH(4) [OF 1(2)] process_move_totals(4) [OF 1(1)] by simp }
qed

lemma process_moves_ok_iff:
  "(\<exists>a'. process_moves d date ms a = Inr a') \<longleftrightarrow>
   (ms = [] \<or> ((\<exists>dem. get_demand_for_day d date = Inr dem)
               \<and> (\<forall>r\<in>set ms. e_stp_id r \<in> stp_id ` set (stp_df d))))"
proof (induction ms arbitrary: a)
  case Nil
  then show ?case by simp
next
  case (Cons row rows)
  show ?case
  proof (cases "process_move d row a")
    case (Inl e)
    then have "\<not> (\<exists>a'. process_move d row a = Inr a')" by simp
    then have "e_stp_id row \<notin> stp_id ` set (stp_df d)"
      unfolding process_move_ok_iff .
    then show ?thesis using Inl by simp
  next
    case (Inr a1)
    then have "\<exists>a'. process_move d row a = Inr a'" by simp
    then have known: "e_stp_id row \<in> stp_id ` set (stp_df d)"
      unfolding process_move_ok_iff .
    show ?thesis
    proof (cases "get_demand_for_day d date")
      case (Inl e)
      then show ?thesis using Inr by simp
    next
      case dem: (Inr dem)
      show ?thesis using Inr dem known Cons.IH [of a1] by auto
    qed
  qed
qed

lemma metrics_day_transport:
  assumes "metrics_day d sol date a = Inr a'"
  shows "total_transport_emission a' =
     total_transport_emission a
     + (\<Sum>r\<leftarrow>filter (\<lambda>r. e_date r = date) sol.
          row_dist d r * diesel_emission_factor_kg_co2_per_km (config d))"
  using assms
  by (auto simp: metrics_day_def Let_def fold_update_flow_totals fold_check_overflow_totals
      fold_credit_farm_transport dest!: process_moves_totals(1) split: if_splits sum.splits)

lemma replay_days_transport:
  "replay_days d sol dates a = Inr a' \<Longrightarrow>
   total_transport_emission a' =
     total_transport_emission a
     + (\<Sum>date\<leftarrow>dates. \<Sum>r\<leftarrow>filter (\<lambda>r. e_date r = date) sol.
          row_dist d r * diesel_emission_factor_kg_co2_per_km (config d))"
proof (induction dates arbitrary: a)
  case Nil
  then show ?case by simp
next
  case (Cons date dates)
  from Cons.prems obtain a1 where
    day: "metrics_day d sol date a = Inr a1" and rest: "replay_days d sol dates a1 = Inr a'"
    by (auto split: sum.splits)
  show ?case
    using Cons.IH [OF rest] metrics_day_transport [OF day] by simp
qed

lemma metrics_day_ok_iff:
  "(\<exists>a'. metrics_day d sol date a = Inr a') \<longleftrightarrow> day_replays d sol date"
proof -
  let ?moves = "filter (\<lambda>r. e_date r = date) sol"
  let ?a1 = "fold update_flow (stp_df d) a"
  show ?thesis
  proof (cases "?moves = []")
    case True
    then show ?thesis by (simp add: metrics_day_def Let_def day_replays_def)
  next
    case False
    show ?thesis
    proof (cases "process_moves d date ?moves ?a1")
      case (Inl e)
      then have "\<not> (\<exists>a'. process_moves d date ?moves ?a1 = Inr a')" by simp
      then have "\<not> day_replays d sol date"
        unfolding process_moves_ok_iff day_replays_def using False by blast
      then show ?thesis using Inl False by (simp add: metrics_day_def Let_def)
    next
      case (Inr a2)
      then have "\<exists>a'. process_moves d date ?moves ?a1 = Inr a'" by simp
      then have ok: "day_replays d sol date"
        unfolding process_moves_ok_iff day_replays_def using False by blast
      then obtain dem where "get_demand_for_day d date = Inr dem"
        unfolding day_replays_def using False by blast
      then show ?thesis using Inr False ok by (simp add: metrics_day_def Let_def)
    qed
  qed
qed

lemma replay_days_ok_iff:
  "(\<exists>a'. replay_days d sol dates a = Inr a') \<longleftrightarrow> (\<forall>date\<in>set dates. day_replays d sol date)"
proof (induction dates arbitrary: a)
  case Nil
  then show ?case by simp
next
  case (Cons date dates)
  have "(\<exists>a'. replay_days d sol (date # dates) a = Inr a') \<longleftrightarrow>
        (\<exists>a1. metrics_day d sol date a = Inr a1 \<and> (\<exists>a'. replay_days d sol dates a1 = Inr a'))"
    by (cases "metrics_day d sol date a") auto
  also have "\<dots> \<longleftrightarrow> (\<exists>a1. metrics_day d sol date a = Inr a1) \<and>
        (\<forall>date\<in>set dates. day_replays d sol date)"
    unfolding Cons.IH by blast
  finally show ?case
    unfolding metrics_day_ok_iff by simp
qed

lemma calculate_metrics_ok_iff:
  "(\<exists>m. calculate_metrics d sol = Inr m) \<longleftrightarrow>
   (\<forall>date\<in>set (year_dates (year (config d))). day_replays d sol date)"
proof -
  have "(\<exists>m. calculate_metrics d sol = Inr m) \<longleftrightarrow>
        (\<exists>a'. replay_days d sol (year_dates (year (config d))) initial_tally = Inr a')"
    by (auto simp: calculate_metrics_def Let_def split: sum.splits)
  then show ?thesis
    unfolding replay_days_ok_iff .
qed

lemma calculate_metrics_fields:
  assumes "calculate_metrics d sol = Inr m"
  shows "total_round_trip_km m = sum_round_trip_km d sol"
    and "total_delivered_tons m = (\<Sum>r\<leftarrow>sol. tons_delivered r)"
    and "logistics_efficiency m =
          (if total_round_trip_km m > 0 then total_delivered_tons m / total_round_trip_km m else 0)"
    and "total_transport_emission (totals m) =
          (\<Sum>date\<leftarrow>year_dates (year (config d)). \<Sum>r\<leftarrow>filter (\<lambda>r. e_date r = date) sol.
             row_dist d r * diesel_emission_factor_kg_co2_per_km (config d))"
  using assms
  by (auto simp: calculate_metrics_def Let_def initial_tally_def dest: replay_days_transport
      split: sum.splits)

lemma get_demand_for_day_every_date:
  assumes "demand_df d = map (\<lambda>date. (date, m)) dates" and "date \<in> set dates"
  shows "get_demand_for_day d date = Inr m"
proof -
  have "filter (\<lambda>r. fst r = date) (demand_df d) = map (\<lambda>date. (date, m)) (filter (\<lambda>x. x = date) dates)"
    unfolding assms(1) by (simp add: filter_map comp_def)
  moreover have "filter (\<lambda>x. x = date) dates \<noteq> []"
    using assms(2) by (simp add: filter_empty_conv)
  ultimately show ?thesis
    by (cases "filter (\<lambda>x. x = date) dates") (auto simp: get_demand_for_day_def)
qed

lemma dm_ex_simps:
  "config dm_ex = cfg_ex"
  "demand_df dm_ex = map (\<lambda>date. (date, [''F_1'' \<mapsto> 100, ''F_2'' \<mapsto> 300])) (year_dates 2025)"
  "stp_df dm_ex = [\<lparr>stp_id = ''S1'', lat = 0, lon = 0, daily_output_tons = 25, storage_max_tons = 20\<rparr>]"
  by (simp_all add: dm_ex_def DataManager_def)

lemma dm_ex_demand:
  "date \<in> set (year_dates 2025) \<Longrightarrow> get_demand_for_day dm_ex date = Inr [''F_1'' \<mapsto> 100, ''F_2'' \<mapsto> 300]"
  by (rule get_demand_for_day_every_date [OF dm_ex_simps(2)])

lemma dm_ex_distance:
  "distance_matrix dm_ex (''S1'', ''F_9'') = None"
  "distance_matrix dm_ex (''S1'', ''F_1'') = Some 7"
  "distance_matrix dm_ex (''S1'', ''F_2'') = Some 7"
  by (simp_all add: dm_ex_def DataManager_def compute_distance_matrix_def)

lemma dm_ex_metrics_ok:
  assumes "\<forall>r\<in>set sol. e_stp_id r = ''S1''"
  shows "\<exists>m. calculate_metrics dm_ex sol = Inr m"
  unfolding calculate_metrics_ok_iff day_replays_def
  using assms by (simp add: dm_ex_simps cfg_ex_def dm_ex_demand)

subsection \<open>The rain-lock matrix\<close>

lemma sorted_weather_rows:
  assumes rows: "set weather = (\<lambda>dt. (dt, rain dt)) ` {d0..<d0 + n}"
    and len: "length weather = n"
  shows "sort_key fst weather = map (\<lambda>dt. (dt, rain dt)) [d0..<d0 + n]"
proof -
  let ?rain_df = "sort_key fst weather"
  let ?ks = "map fst ?rain_df"
  have set_ks: "set ?ks = {d0..<d0 + n}"
    using rows by (auto simp: image_image)
  have "length ?ks = n" using len by simp
  then have "card (set ?ks) = length ?ks"
    using set_ks by simp
  then have dist: "distinct ?ks" by (rule card_distinct)
  have srt: "sorted ?ks" by (rule sorted_sort_key)
  have ks: "?ks = [d0..<d0 + n]"
    by (rule sorted_distinct_set_unique [OF srt dist]) (use set_ks in simp_all)
  have el: "r = (fst r, rain (fst r))" if "r \<in> set ?rain_df" for r
    using that rows by auto
  have "?rain_df = map (\<lambda>r. (fst r, rain (fst r))) ?rain_df"
    by (rule sym, rule map_idI) (simp add: el [symmetric])
  also have "\<dots> = map (\<lambda>dt. (dt, rain dt)) ?ks"
    by (simp add: comp_def)
  finally show ?thesis unfolding ks .
qed

lemma fold_dict_lookup:
  assumes "distinct (map k xs)" and "x \<in> set xs"
  shows "fold (\<lambda>i m. m(k i \<mapsto> v i)) xs m0 (k x) = Some (v x)"
  using assms
proof (induction xs arbitrary: m0 rule: rev_induct)
  case Nil
  then show ?case by simp
next
  case (snoc y ys)
  then show ?case by (cases "x = y") (auto simp: image_iff)
qed

lemma sum_list_take_drop:
  "sum_list (take w (drop i xs)) = (\<Sum>j = i..<min (i + w) (length xs). xs ! j)"
proof -
  have "take w (drop i xs) = map ((!) xs) [i..<min (i + w) (length xs)]"
  proof (rule nth_equalityI)
    show "length (take w (drop i xs)) = length (map ((!) xs) [i..<min (i + w) (length xs)])"
      by auto
  next
    fix k
    assume "k < length (take w (drop i xs))"
    then have k: "k < w" "i + k < length xs" by auto
    then have "i + k < min (i + w) (length xs)" by simp
    then have "map ((!) xs) [i..<min (i + w) (length xs)] ! k = xs ! (i + k)"
      using k by (simp del: upt_Suc)
    moreover have "take w (drop i xs) ! k = xs ! (i + k)"
      using k by simp
    ultimately show "take w (drop i xs) ! k = map ((!) xs) [i..<min (i + w) (length xs)] ! k"
      by simp
  qed
  then show ?thesis
    by (simp add: interv_sum_list_conv_sum_set_nat)
qed

lemma forward_rolling_sum_dates:
  assumes "1 \<le> w" and "i < n"
  shows "forward_rolling_sum w (map f [d0..<d0 + n]) i
         = Some (\<Sum>d' = d0 + i..<min (d0 + i + w) (d0 + n). f d')"
proof -
  let ?col = "map f [d0..<d0 + n]"
  have ne: "\<not> length (take w (drop i ?col)) < 1"
    using assms by simp
  have "sum_list (take w (drop i ?col)) = (\<Sum>j = i..<min (i + w) n. f (d0 + j))"
    unfolding sum_list_take_drop by (rule sum.cong) auto
  also have "\<dots> = (\<Sum>d' = d0 + i..<d0 + min (i + w) n. f d')"
    by (rule sum.reindex_bij_witness [where i = "\<lambda>d'. d' - d0" and j = "\<lambda>j. d0 + j"]) auto
  also have "d0 + min (i + w) n = min (d0 + i + w) (d0 + n)"
    by simp
  finally show ?thesis
    using ne by (simp add: forward_rolling_sum_def Let_def)
qed

lemma rain_lock_matrix_entry:
  assumes rows: "set weather = (\<lambda>dt. (dt, rain dt)) ` {d0..<d0 + n}"
    and len: "length weather = n"
    and win: "1 \<le> forecast_window_days cfg"
    and dt: "d0 \<le> dt" "dt < d0 + n"
  shows "compute_rain_lock_matrix cfg zones weather dt =
           Some (\<lambda>z. if z \<in> set zones
                      then Some ((\<Sum>d' = dt..<min (dt + forecast_window_days cfg) (d0 + n). rain d' z)
                                  > rain_lock_threshold_mm cfg)
                      else None)"
proof -
  let ?rain_df = "map (\<lambda>dt. (dt, rain dt)) [d0..<d0 + n]"
  let ?i = "dt - d0"
  have i: "?i < n" "d0 + ?i = dt" using dt by auto
  have key: "fst (?rain_df ! j) = d0 + j" if "j < n" for j
    using that by simp
  have dist: "distinct (map (\<lambda>j. fst (?rain_df ! j)) [0..<length ?rain_df])"
    by (auto simp: distinct_map inj_on_def)
  have mem: "?i \<in> set [0..<length ?rain_df]" using i by simp
  have col: "map (\<lambda>r. snd r z) ?rain_df = map (\<lambda>d'. rain d' z) [d0..<d0 + n]" for z
    by (simp add: comp_def)
  have "compute_rain_lock_matrix cfg zones weather (fst (?rain_df ! ?i)) =
        Some (\<lambda>z. if z \<in> set zones
           then Some (gt_threshold (forward_rolling_sum (forecast_window_days cfg)
                   (map (\<lambda>r. snd r z) ?rain_df) ?i) (rain_lock_threshold_mm cfg))
           else None)"
    unfolding compute_rain_lock_matrix_def Let_def sorted_weather_rows [OF rows len]
    by (rule fold_dict_lookup [OF dist mem])
  then show ?thesis
    unfolding col forward_rolling_sum_dates [OF win i(1)] key [OF i(1)] i(2)
    by (simp add: gt_threshold_def cong: if_cong)
qed

text \<open>
  C3. Let the weather table hold exactly one row per day of \<open>d0, ..., d0 + n - 1\<close> (in any
  order), \<open>rain dt z\<close> being the reading of zone \<open>z\<close> on day \<open>dt\<close>, and let the window be
  at least one day. Then for every day \<open>dt\<close> of the table and every zone column \<open>z\<close>, the
  lock flag the solver reads is true exactly when the rainfall summed over the days
  \<open>dt, ..., dt + W - 1\<close> that the table has (those before \<open>d0 + n\<close>) is strictly greater
  than the threshold; a truncated window is compared against the same threshold.
\<close>

theorem C3_rain_lock_is_forward_window_sum:
  assumes rows: "set weather = (\<lambda>dt. (dt, rain dt)) ` {d0..<d0 + n}"
    and len: "length weather = n"
    and win: "1 \<le> forecast_window_days cfg"
    and zone: "z \<in> set zones"
    and dt: "d0 \<le> dt" "dt < d0 + n"
  shows "rain_locked (DataManager hav cfg stps farms zones weather demand_rows) dt z
         \<longleftrightarrow> (\<Sum>d' = dt..<min (dt + forecast_window_days cfg) (d0 + n). rain d' z)
               > rain_lock_threshold_mm cfg"
  using zone
  by (simp add: rain_locked_def DataManager_def rain_lock_matrix_entry [OF rows len win dt])


lemma weather_ex_rows:
  "set [(739252, (\<lambda>z. if z = ''Z1'' then 40 else 0)), (739253, (\<lambda>z. 0)), (739254::nat, (\<lambda>z. 0::rat))]
   = (\<lambda>dt. (dt, rain_ex dt)) ` {739252..<739252 + 3}"
proof -
  have "{739252..<739252 + 3} = {739252, 739253, 739254::nat}" by auto
  moreover have "rain_ex 739252 = (\<lambda>z. if z = ''Z1'' then 40 else 0)"
    "rain_ex 739253 = (\<lambda>z. 0)" "rain_ex 739254 = (\<lambda>z. 0)"
    by (auto simp: rain_ex_def)
  ultimately show ?thesis by simp
qed

theorem C3_rain_lock_witness:
  "rain_locked dm_ex 739252 ''Z1'' \<and> \<not> rain_locked dm_ex 739253 ''Z1''
   \<and> \<not> rain_locked dm_ex 739252 ''Z2''"
proof -
  have win: "1 \<le> forecast_window_days cfg_ex" by (simp add: cfg_ex_def)
  have sum1: "(\<Sum>d' = 739252..<min (739252 + forecast_window_days cfg_ex) 739255. rain_ex d' ''Z1'') = 40"
  proof -
    have "{739252..<min (739252 + forecast_window_days cfg_ex) 739255} = {739252, 739253, 739254::nat}"
      by (auto simp: cfg_ex_def)
    then show ?thesis by (simp add: rain_ex_def)
  qed
  have sum2: "(\<Sum>d' = 739253..<min (739253 + forecast_window_days cfg_ex) 739255. rain_ex d' ''Z1'') = 0"
    by (rule sum.neutral) (simp add: rain_ex_def)
  have sum3: "(\<Sum>d' = 739252..<min (739252 + forecast_window_days cfg_ex) 739255. rain_ex d' ''Z2'') = 0"
    by (rule sum.neutral) (simp add: rain_ex_def)
  have thr: "rain_lock_threshold_mm cfg_ex = 30" by (simp add: cfg_ex_def)
  have "rain_locked dm_ex 739252 ''Z1''"
    unfolding dm_ex_def
    by (subst C3_rain_lock_is_forward_window_sum [OF weather_ex_rows _ win]) (simp_all add: sum1 thr)
  moreover have "\<not> rain_locked dm_ex 739253 ''Z1''"
    unfolding dm_ex_def
    by (subst C3_rain_lock_is_forward_window_sum [OF weather_ex_rows _ win]) (simp_all add: sum2 thr)
  moreover have "\<not> rain_locked dm_ex 739252 ''Z2''"
    unfolding dm_ex_def
    by (subst C3_rain_lock_is_forward_window_sum [OF weather_ex_rows _ win]) (simp_all add: sum3 thr)
  ultimately show ?thesis by simp
qed

subsection \<open>The replay: gains per farm and day\<close>

lemma fold_credit_farm_gains:
  "total_offset_gain (fold (credit_farm cfg dem) fts a) =
     total_offset_gain a
     + (\<Sum>ft\<leftarrow>fts. min (snd ft * nitrogen_content_kg_per_ton_biosolid cfg) (get0 dem (fst ft))
                    * synthetic_n_offset_credit_kg_co2_per_kg_n cfg)"
  "total_leaching_penalty (fold (credit_farm cfg dem) fts a) =
     total_leaching_penalty a
     + (\<Sum>ft\<leftarrow>fts. max 0 (snd ft * nitrogen_content_kg_per_ton_biosolid cfg
                            - get0 dem (fst ft) * (11 / 10))
                    * leaching_penalty_kg_co2_per_kg_excess_n cfg)"
  "total_sequestration_gain (fold (credit_farm cfg dem) fts a) =
     total_sequestration_gain a
     + (\<Sum>ft\<leftarrow>fts. snd ft * 1000 * soil_organic_carbon_gain_kg_co2_per_kg_biosolid cfg)"
  by (induction fts arbitrary: a) (simp_all add: credit_farm_def Let_def)

lemma sum_over_farm_totals:
  "(\<Sum>ft\<leftarrow>farm_totals moves. h ft) =
   (\<Sum>f\<in>e_farm_id ` set moves. h (f, \<Sum>r\<leftarrow>filter (\<lambda>r. e_farm_id r = f) moves. tons_delivered r))"
proof -
  let ?ids = "sort (remdups (map e_farm_id moves))"
  let ?g = "\<lambda>f. (f, \<Sum>r\<leftarrow>filter (\<lambda>r. e_farm_id r = f) moves. tons_delivered r)"
  have "(\<Sum>ft\<leftarrow>farm_totals moves. h ft) = (\<Sum>f\<leftarrow>?ids. h (?g f))"
    by (simp add: farm_totals_def comp_def)
  also have "\<dots> = (\<Sum>f\<in>set ?ids. h (?g f))"
    by (rule sum_list_distinct_conv_sum_set) simp
  finally show ?thesis by simp
qed

lemma metrics_day_gains:
  assumes day: "metrics_day d sol date a = Inr a'"
    and dem: "get_demand_for_day d date = Inr dem"
  shows "total_offset_gain a' = total_offset_gain a
           + (\<Sum>ft\<leftarrow>farm_totals (filter (\<lambda>r. e_date r = date) sol).
                min (snd ft * nitrogen_content_kg_per_ton_biosolid (config d)) (get0 dem (fst ft))
                    * synthetic_n_offset_credit_kg_co2_per_kg_n (config d))"
    and "total_leaching_penalty a' = total_leaching_penalty a
           + (\<Sum>ft\<leftarrow>farm_totals (filter (\<lambda>r. e_date r = date) sol).
                max 0 (snd ft * nitrogen_content_kg_per_ton_biosolid (config d)
                            - get0 dem (fst ft) * (11 / 10))
                    * leaching_penalty_kg_co2_per_kg_excess_n (config d))"
    and "total_sequestration_gain a' = total_sequestration_gain a
           + (\<Sum>ft\<leftarrow>farm_totals (filter (\<lambda>r. e_date r = date) sol).
                snd ft * 1000 * soil_organic_carbon_gain_kg_co2_per_kg_biosolid (config d))"
proof -
  let ?moves = "filter (\<lambda>r. e_date r = date) sol"
  let ?a1 = "fold update_flow (stp_df d) a"
  have "\<exists>b. a' = fold (check_overflow (config d)) (stp_df d)
                    (fold (credit_farm (config d) dem) (farm_totals ?moves) b)
            \<and> total_offset_gain b = total_offset_gain a
            \<and> total_leaching_penalty b = total_leaching_penalty a
            \<and> total_sequestration_gain b = total_sequestration_gain a"
  proof (cases "?moves = []")
    case True
    then have "a' = fold (check_overflow (config d)) (stp_df d)
                      (fold (credit_farm (config d) dem) (farm_totals ?moves) ?a1)"
      using day by (simp add: metrics_day_def Let_def farm_totals_def)
    then show ?thesis by (intro exI [of _ ?a1]) (simp add: fold_update_flow_totals)
  next
    case False
    then obtain a2 where a2: "process_moves d date ?moves ?a1 = Inr a2"
      using day by (auto simp: metrics_day_def Let_def split: sum.splits)
    then have "a' = fold (check_overflow (config d)) (stp_df d)
                      (fold (credit_farm (config d) dem) (farm_totals ?moves) a2)"
      using day dem False by (simp add: metrics_day_def Let_def)
    then show ?thesis
      using process_moves_totals(2-4) [OF a2]
      by (intro exI [of _ a2]) (simp add: fold_update_flow_totals)
  qed
  then obtain b where b: "a' = fold (check_overflow (config d)) (stp_df d)
                    (fold (credit_farm (config d) dem) (farm_totals ?moves) b)"
    "total_offset_gain b = total_offset_gain a"
    "total_leaching_penalty b = total_leaching_penalty a"
    "total_sequestration_gain b = total_sequestration_gain a"
    by blast
  show "total_offset_gain a' = total_offset_gain a
           + (\<Sum>ft\<leftarrow>farm_totals ?moves.
                min (snd ft * nitrogen_content_kg_per_ton_biosolid (config d)) (get0 dem (fst ft))
                    * synthetic_n_offset_credit_kg_co2_per_kg_n (config d))"
    by (simp add: b fold_check_overflow_totals fold_credit_farm_gains)
  show "total_leaching_penalty a' = total_leaching_penalty a
           + (\<Sum>ft\<leftarrow>farm_totals ?moves.
                max 0 (snd ft * nitrogen_content_kg_per_ton_biosolid (config d)
                            - get0 dem (fst ft) * (11 / 10))
                    * leaching_penalty_kg_co2_per_kg_excess_n (config d))"
    by (simp add: b fold_check_overflow_totals fold_credit_farm_gains)
  show "total_sequestration_gain a' = total_sequestration_gain a
           + (\<Sum>ft\<leftarrow>farm_totals ?moves.
                snd ft * 1000 * soil_organic_carbon_gain_kg_co2_per_kg_biosolid (config d))"
    by (simp add: b fold_check_overflow_totals fold_credit_farm_gains)
qed

text \<open>
  C9. On a day that replays without an exception, with \<open>dem\<close> the day's demand as the data
  manager returns it (never decremented) and \<open>delivered_n f\<close> the nitrogen of all the day's
  rows for farm \<open>f\<close> taken together, the day adds to the offset gain, once per farm that
  received anything, \<open>min (delivered_n f) (demand f)\<close> times the offset rate, and to the
  leaching penalty \<open>max 0 (delivered_n f - 1.1 * demand f)\<close> times the leaching rate.
\<close>

theorem C9_aggregate_per_farm_then_score:
  assumes day: "metrics_day d sol date a = Inr a'"
    and dem: "get_demand_for_day d date = Inr dem"
    and moves: "moves = filter (\<lambda>r. e_date r = date) sol"
    and total: "\<And>f. delivered_n f = (\<Sum>r\<leftarrow>filter (\<lambda>r. e_farm_id r = f) moves. tons_delivered r)
                     * nitrogen_content_kg_per_ton_biosolid (config d)"
  shows "total_offset_gain a' = total_offset_gain a
           + (\<Sum>f\<in>e_farm_id ` set moves.
                min (delivered_n f) (get0 dem f) * synthetic_n_offset_credit_kg_co2_per_kg_n (config d))
         \<and> total_leaching_penalty a' = total_leaching_penalty a
           + (\<Sum>f\<in>e_farm_id ` set moves.
                max 0 (delivered_n f - 11 / 10 * get0 dem f)
                  * leaching_penalty_kg_co2_per_kg_excess_n (config d))"
  unfolding metrics_day_gains [OF day dem] sum_over_farm_totals moves total
  by (simp add: mult.commute)


lemma first_day_2025: "739252 \<in> set (year_dates 2025)"
  by (simp add: year_dates_def days_before_year_def)

theorem C9_aggregate_witness:
  "\<exists>a'. metrics_day dm_ex two_trucks 739252 initial_tally = Inr a'
        \<and> total_offset_gain a' = 1500 \<and> total_leaching_penalty a' = 1700"
proof -
  have dem: "get_demand_for_day dm_ex 739252 = Inr [''F_1'' \<mapsto> 100, ''F_2'' \<mapsto> 300]"
    by (rule dm_ex_demand [OF first_day_2025])
  then have "\<exists>a'. metrics_day dm_ex two_trucks 739252 initial_tally = Inr a'"
    unfolding metrics_day_ok_iff day_replays_def by (simp add: two_trucks_def dm_ex_simps)
  then obtain a' where day: "metrics_day dm_ex two_trucks 739252 initial_tally = Inr a'" ..
  have moves: "two_trucks = filter (\<lambda>r. e_date r = 739252) two_trucks"
    by (simp add: two_trucks_def)
  have ids: "e_farm_id ` set two_trucks = {''F_2''}"
    by (simp add: two_trucks_def)
  from C9_aggregate_per_farm_then_score [OF day dem moves,
      of "\<lambda>f. (\<Sum>r\<leftarrow>filter (\<lambda>r. e_farm_id r = f) two_trucks. tons_delivered r)
                     * nitrogen_content_kg_per_ton_biosolid (config dm_ex)"]
  have "total_offset_gain a' = 1500 \<and> total_leaching_penalty a' = 1700"
    unfolding ids
    by (simp add: two_trucks_def dm_ex_simps cfg_ex_def initial_tally_def get0_def)
  with day show ?thesis by blast
qed

lemma build_candidates_mem:
  assumes "c \<in> set (build_candidates d sid cur dem vf)"
  shows "\<exists>fid\<in>set vf. \<exists>k. distance_matrix d (sid, fid) = Some k
            \<and> c = score_candidate (config d) cur dem fid k"
proof -
  from assms obtain fid where fid: "fid \<in> set vf"
    and c: "c \<in> set (case distance_matrix d (sid, fid) of
                        None \<Rightarrow> []
                      | Some dist_km \<Rightarrow> [score_candidate (config d) cur dem fid dist_km])"
    by (auto simp: build_candidates_def)
  from c obtain k where "distance_matrix d (sid, fid) = Some k"
    and "c = score_candidate (config d) cur dem fid k"
    by (cases "distance_matrix d (sid, fid)") auto
  with fid show ?thesis by blast
qed

lemma score_candidate_fields:
  "c_farm_id (score_candidate cfg cur dem fid k) = fid"
  "c_dist (score_candidate cfg cur dem fid k) = k"
  "demand (score_candidate cfg cur dem fid k) = get0 dem fid"
  "package_tons (score_candidate cfg cur dem fid k) = min (truck_capacity_tons cfg) cur"
  "useful_n (score_candidate cfg cur dem fid k) =
     min (min (truck_capacity_tons cfg) cur * nitrogen_content_kg_per_ton_biosolid cfg) (get0 dem fid)"
  by (simp_all add: score_candidate_def Let_def)

lemma sum_round_trip_km_twice:
  "sum_round_trip_km d sol = 2 * (\<Sum>r\<leftarrow>sol. row_dist d r)"
  by (induction sol) (simp_all add: sum_round_trip_km_def algebra_simps)

text \<open>
  C7. Every candidate the solver scores carries the distance-matrix entry of its (plant,
  farm) pair, and its score charges that one-way distance once, times the diesel factor.
  A replay that ends without an exception reports as round-trip kilometres twice the
  one-way distance of every row, summed over all rows, and as logistics efficiency the
  delivered tons divided by those kilometres (0 when the kilometres are not positive).
\<close>

theorem C7_one_way_transport_round_trip_efficiency:
  "(\<forall>c\<in>set (build_candidates d sid cur dem vf).
       distance_matrix d (sid, c_farm_id c) = Some (c_dist c)
     \<and> score c = useful_n c * synthetic_n_offset_credit_kg_co2_per_kg_n (config d)
                 + package_tons c * 200
                 - c_dist c * diesel_emission_factor_kg_co2_per_km (config d)
                 - max 0 (package_tons c * nitrogen_content_kg_per_ton_biosolid (config d)
                          - demand c * (11 / 10))
                   * leaching_penalty_kg_co2_per_kg_excess_n (config d))
   \<and> (\<forall>m. calculate_metrics d sol = Inr m \<longrightarrow>
          total_delivered_tons m = (\<Sum>r\<leftarrow>sol. tons_delivered r)
        \<and> total_round_trip_km m = (\<Sum>r\<leftarrow>sol. 2 * row_dist d r)
        \<and> total_round_trip_km m = 2 * (\<Sum>r\<leftarrow>sol. row_dist d r)
        \<and> logistics_efficiency m =
            (if total_round_trip_km m > 0 then total_delivered_tons m / total_round_trip_km m else 0))"
proof (intro conjI ballI allI impI)
  fix c assume "c \<in> set (build_candidates d sid cur dem vf)"
  then obtain fid k where k: "distance_matrix d (sid, fid) = Some k"
    and c: "c = score_candidate (config d) cur dem fid k"
    using build_candidates_mem by blast
  show "distance_matrix d (sid, c_farm_id c) = Some (c_dist c)"
    using k by (simp add: c score_candidate_fields)
  show "score c = useful_n c * synthetic_n_offset_credit_kg_co2_per_kg_n (config d)
                 + package_tons c * 200
                 - c_dist c * diesel_emission_factor_kg_co2_per_km (config d)
                 - max 0 (package_tons c * nitrogen_content_kg_per_ton_biosolid (config d)
                          - demand c * (11 / 10))
                   * leaching_penalty_kg_co2_per_kg_excess_n (config d)"
    by (simp add: c score_candidate_fields score_candidate_score)
next
  fix m assume run: "calculate_metrics d sol = Inr m"
  show "total_delivered_tons m = (\<Sum>r\<leftarrow>sol. tons_delivered r)"
    by (rule calculate_metrics_fields(2) [OF run])
  show "total_round_trip_km m = 2 * (\<Sum>r\<leftarrow>sol. row_dist d r)"
    by (simp add: calculate_metrics_fields(1) [OF run] sum_round_trip_km_twice)
  show "total_round_trip_km m = (\<Sum>r\<leftarrow>sol. 2 * row_dist d r)"
    by (simp add: calculate_metrics_fields(1) [OF run] sum_round_trip_km_def mult.commute)
  show "logistics_efficiency m =
            (if total_round_trip_km m > 0 then total_delivered_tons m / total_round_trip_km m else 0)"
    by (rule calculate_metrics_fields(3) [OF run])
qed


theorem C7_transport_efficiency_witness:
  "map (\<lambda>c. (c_dist c, score c))
       (build_candidates dm_ex ''S1'' 25 [''F_1'' \<mapsto> 100, ''F_2'' \<mapsto> 300] [''F_2'']) = [(7, 32437 / 10)]
   \<and> (\<exists>m. calculate_metrics dm_ex one_truck = Inr m
          \<and> total_round_trip_km m = 14 \<and> logistics_efficiency m = 5 / 7)"
proof -
  note th = C7_one_way_transport_round_trip_efficiency
    [of dm_ex "''S1''" 25 "[''F_1'' \<mapsto> 100, ''F_2'' \<mapsto> 300]" "[''F_2'']" one_truck]
  have cands: "build_candidates dm_ex ''S1'' 25 [''F_1'' \<mapsto> 100, ''F_2'' \<mapsto> 300] [''F_2'']
        = [score_candidate cfg_ex 25 [''F_1'' \<mapsto> 100, ''F_2'' \<mapsto> 300] ''F_2'' 7]"
    by (simp add: build_candidates_def dm_ex_distance dm_ex_simps)
  have "score (score_candidate cfg_ex 25 [''F_1'' \<mapsto> 100, ''F_2'' \<mapsto> 300] ''F_2'' 7) = 32437 / 10"
    using th unfolding cands
    by (simp add: score_candidate_fields dm_ex_simps cfg_ex_def get0_def)
  then have first: "map (\<lambda>c. (c_dist c, score c))
       (build_candidates dm_ex ''S1'' 25 [''F_1'' \<mapsto> 100, ''F_2'' \<mapsto> 300] [''F_2'']) = [(7, 32437 / 10)]"
    unfolding cands by (simp add: score_candidate_fields)
  obtain m where run: "calculate_metrics dm_ex one_truck = Inr m"
    using dm_ex_metrics_ok [of one_truck] by (auto simp: one_truck_def)
  have dist: "row_dist dm_ex \<lparr>e_date = 739252, e_stp_id = ''S1'', e_farm_id = ''F_2'', tons_delivered = 10\<rparr> = 7"
    by (simp add: row_dist_def get0_def dm_ex_distance)
  from th run have "total_round_trip_km m = 14 \<and> logistics_efficiency m = 5 / 7"
    by (simp add: one_truck_def dist)
  with first run show ?thesis by blast
qed

subsection \<open>Traces\<close>

lemma states_simps [simp]:
  "states t \<noteq> []" "last (states t) = now t"
  "states (commit f t) = states t @ [f (now t)]" "now (commit f t) = f (now t)"
  by (simp_all add: states_def commit_def)

lemma grows_refl: "grows R t t"
  by (simp add: grows_def)

lemma grows_now:
  assumes "states t' = states t @ new"
  shows "now t' = last (now t # new)"
proof -
  have "now t' = last (states t')" by simp
  also have "\<dots> = last (now t # new)"
    unfolding assms by (cases new) simp_all
  finally show ?thesis .
qed

lemma grows_commit:
  assumes "R (now t) (f (now t))"
  shows "grows R t (commit f t)"
  unfolding grows_def using assms by (intro exI [of _ "[f (now t)]"]) simp

lemma grows_trans:
  assumes "grows R t t'" and "grows R t' t''"
  shows "grows R t t''"
proof -
  from assms(1) obtain new1 where 1: "states t' = states t @ new1" "successively R (now t # new1)"
    unfolding grows_def by blast
  from assms(2) obtain new2 where 2: "states t'' = states t' @ new2" "successively R (now t' # new2)"
    unfolding grows_def by blast
  have now': "now t' = last (now t # new1)" by (rule grows_now [OF 1(1)])
  have "successively R ((now t # new1) @ new2)"
    unfolding successively_append_iff
    using 1(2) 2(2) now' by (auto simp: successively_Cons)
  then show ?thesis
    unfolding grows_def using 1(1) 2(1) by (intro exI [of _ "new1 @ new2"]) simp
qed

lemma grows_mono:
  assumes "grows R t t'" and "\<And>s s'. R s s' \<Longrightarrow> R' s s'"
  shows "grows R' t t'"
proof -
  from assms(1) obtain new where n: "states t' = states t @ new" "successively R (now t # new)"
    unfolding grows_def by blast
  have "successively R' (now t # new)"
    by (rule successively_mono [OF n(2)]) (rule assms(2))
  then show ?thesis unfolding grows_def using n(1) by blast
qed

lemma successively_invariant:
  assumes "successively R (x # xs)" and "P x" and "\<And>s s'. P s \<Longrightarrow> R s s' \<Longrightarrow> P s'"
  shows "\<forall>s\<in>set xs. P s"
  using assms(1,2)
proof (induction xs arbitrary: x)
  case Nil
  then show ?case by simp
next
  case (Cons y ys)
  then have "P y" using assms(3) by auto
  moreover have "successively R (y # ys)" using Cons.prems(1) by simp
  ultimately show ?case using Cons.IH by auto
qed

lemma successively_strengthen:
  assumes "successively R xs" and "\<forall>s\<in>set xs. P s"
  shows "successively (\<lambda>s s'. R s s' \<and> P s \<and> P s') xs"
  using assms by (induction R xs rule: successively.induct) auto

lemma grows_invariant:
  assumes "grows R t t'" and "P (now t)" and "\<And>s s'. P s \<Longrightarrow> R s s' \<Longrightarrow> P s'"
  shows "P (now t')"
proof -
  from assms(1) obtain new where n: "states t' = states t @ new" "successively R (now t # new)"
    unfolding grows_def by blast
  have "\<forall>s\<in>set new. P s"
    by (rule successively_invariant [where P = P, OF n(2) assms(2)]) (rule assms(3))
  then have "P (last (now t # new))" using assms(2) by (cases new) auto
  then show ?thesis using grows_now [OF n(1)] by simp
qed

lemma grows_strengthen:
  assumes "grows R t t'" and "P (now t)" and "\<And>s s'. P s \<Longrightarrow> R s s' \<Longrightarrow> P s'"
  shows "grows (\<lambda>s s'. R s s' \<and> P s \<and> P s') t t'"
proof -
  from assms(1) obtain new where n: "states t' = states t @ new" "successively R (now t # new)"
    unfolding grows_def by blast
  have "\<forall>s\<in>set new. P s"
    by (rule successively_invariant [where P = P, OF n(2) assms(2)]) (rule assms(3))
  then have "\<forall>s\<in>set (now t # new). P s" using assms(2) by simp
  then have "successively (\<lambda>s s'. R s s' \<and> P s \<and> P s') (now t # new)"
    by (rule successively_strengthen [OF n(2)])
  then show ?thesis unfolding grows_def using n(1) by blast
qed

subsection \<open>The trace of the solver is made of engine steps\<close>

lemma greedy_dispatch_grows:
  "grows (truck_step date_str (s_stp_id stp)) t (greedy_dispatch date_str stp cands t)"
proof (induction cands arbitrary: t)
  case Nil
  then show ?case by (simp add: grows_refl)
next
  case (Cons cand rest)
  show ?case
  proof (cases "stp_storage (now t) (s_stp_id stp) \<le> 0")
    case True
    then show ?thesis by (simp add: grows_refl)
  next
    case pos: False
    show ?thesis
    proof (cases "\<not> stp_storage (now t) (s_stp_id stp) > s_max stp \<and> \<not> score cand > 0")
      case True
      then show ?thesis using pos Cons.IH [of t] by (simp add: Let_def)
    next
      case False
      let ?t1 = "commit (dispatch_truck date_str (s_stp_id stp) (c_farm_id cand)) t"
      have "grows (truck_step date_str (s_stp_id stp)) t ?t1"
        using pos by (intro grows_commit) (auto simp: truck_step_def)
      then have "grows (truck_step date_str (s_stp_id stp)) t (greedy_dispatch date_str stp rest ?t1)"
        using Cons.IH [of ?t1] by (rule grows_trans)
      then show ?thesis using pos False by (auto simp: Let_def)
    qed
  qed
qed

lemma dispatch_logic_grows:
  "grows (truck_step date_str (s_stp_id stp)) t (dispatch_logic date_str vf stp t)"
  by (simp add: dispatch_logic_def Let_def grows_refl greedy_dispatch_grows)

lemma fold_dispatch_logic_grows:
  "grows (\<lambda>s s'. \<exists>sid. truck_step date_str sid s s') t (fold (dispatch_logic date_str vf) sts t)"
proof (induction sts arbitrary: t)
  case Nil
  then show ?case by (simp add: grows_refl)
next
  case (Cons st sts)
  have "grows (\<lambda>s s'. \<exists>sid. truck_step date_str sid s s') t (dispatch_logic date_str vf st t)"
    by (rule grows_mono [OF dispatch_logic_grows]) blast
  then show ?case using Cons.IH by (auto intro: grows_trans)
qed

lemma fold_replenish_grows:
  assumes "set ps \<subseteq> set (stp_df d)"
  shows "grows (\<lambda>s s'. \<exists>stp\<in>set (stp_df d). s' = replenish stp s) t
           (fold (\<lambda>stp. commit (replenish stp)) ps t)"
  using assms
proof (induction ps arbitrary: t)
  case Nil
  then show ?case by (simp add: grows_refl)
next
  case (Cons p ps)
  have "grows (\<lambda>s s'. \<exists>stp\<in>set (stp_df d). s' = replenish stp s) t (commit (replenish p) t)"
    using Cons.prems by (intro grows_commit) auto
  then show ?case using Cons.IH Cons.prems by (auto intro: grows_trans)
qed

lemma engine_step_dm: "engine_step d s s' \<Longrightarrow> dm s' = dm s"
  by (auto simp: engine_step_def truck_step_def replenish_def dispatch_truck_def Let_def)

lemma fold_replenish_dm [simp]:
  "dm (now (fold (\<lambda>stp. commit (replenish stp)) ps t)) = dm (now t)"
  by (induction ps arbitrary: t) (simp_all add: replenish_def)

lemma process_day_grows:
  assumes "process_day date t = (err, t')"
  shows "grows (engine_step (dm (now t))) t t'"
proof -
  let ?d = "dm (now t)"
  let ?R = "engine_step ?d"
  let ?t1 = "fold (\<lambda>stp. commit (replenish stp)) (stp_df ?d) t"
  have g1: "grows ?R t ?t1"
    by (rule grows_mono [OF fold_replenish_grows [of "stp_df ?d" ?d]])
       (auto simp: engine_step_def)
  show ?thesis
  proof (cases "get_demand_for_day ?d date")
    case (Inl e)
    then show ?thesis using assms g1 by (simp add: process_day_def Let_def)
  next
    case (Inr demands)
    let ?t2 = "commit (\<lambda>s. s\<lparr>daily_demands := demands\<rparr>) ?t1"
    have "grows ?R ?t1 ?t2"
      by (intro grows_commit) (auto simp: engine_step_def)
    with g1 have g2: "grows ?R t ?t2" by (rule grows_trans)
    show ?thesis
    proof (cases "stp_status_rows (now ?t2) (stp_df (dm (now ?t2)))")
      case (Inl e)
      then show ?thesis using assms g2 Inr by (simp add: process_day_def Let_def)
    next
      case inr: (Inr sts)
      let ?t3 = "fold (dispatch_logic date (valid_farms_on (dm (now ?t2)) date)) (sort_by_urgency sts) ?t2"
      have "grows ?R ?t2 ?t3"
        by (rule grows_mono [OF fold_dispatch_logic_grows]) (auto simp: engine_step_def)
      with g2 have "grows ?R t ?t3" by (rule grows_trans)
      then show ?thesis using assms Inr inr by (simp add: process_day_def Let_def)
    qed
  qed
qed

lemma process_day_dm:
  assumes "process_day date t = (err, t')"
  shows "dm (now t') = dm (now t)"
  by (rule grows_invariant [OF process_day_grows [OF assms], where P = "\<lambda>s. dm s = dm (now t)"])
     (auto dest: engine_step_dm)

lemma run_days_grows:
  assumes "run_days dates t = (err, t')"
  shows "grows (engine_step (dm (now t))) t t'"
  using assms
proof (induction dates arbitrary: t)
  case Nil
  then show ?case by (simp add: grows_refl)
next
  case (Cons date dates)
  obtain e1 t1 where day: "process_day date t = (e1, t1)" by (cases "process_day date t")
  have g1: "grows (engine_step (dm (now t))) t t1" by (rule process_day_grows [OF day])
  show ?case
  proof (cases e1)
    case None
    then have "run_days dates t1 = (err, t')" using Cons.prems day by simp
    then have "grows (engine_step (dm (now t1))) t1 t'" by (rule Cons.IH)
    then show ?thesis using g1 process_day_dm [OF day] by (auto intro: grows_trans)
  next
    case (Some e)
    then show ?thesis using Cons.prems day g1 by simp
  qed
qed

lemma solve_trace:
  assumes "solve (GreedySolver d) = (err, t)"
  shows "successively (engine_step d) (states t)"
    and "hd (states t) = now (GreedySolver d)"
    and "\<forall>s\<in>set (states t). dm s = d"
proof -
  have init: "states (GreedySolver d) = [now (GreedySolver d)]" "dm (now (GreedySolver d)) = d"
    by (simp_all add: GreedySolver_def states_def)
  have "grows (engine_step d) (GreedySolver d) t"
    using run_days_grows [of _ "GreedySolver d" err t] assms init(2) by (simp add: solve_def)
  then obtain new where n: "states t = now (GreedySolver d) # new"
    "successively (engine_step d) (now (GreedySolver d) # new)"
    unfolding grows_def init by auto
  show "successively (engine_step d) (states t)" using n by simp
  show "hd (states t) = now (GreedySolver d)" using n by simp
  have "\<forall>s\<in>set new. dm s = d"
    by (rule successively_invariant [where P = "\<lambda>s. dm s = d", OF n(2) init(2)])
       (auto dest: engine_step_dm)
  then show "\<forall>s\<in>set (states t). dm s = d" using n(1) init(2) by simp
qed

subsection \<open>Inventory and dispatch bounds\<close>

lemma engine_step_storage_nonneg:
  assumes out: "\<forall>p\<in>set (stp_df d). 0 \<le> daily_output_tons p"
    and step: "engine_step d s s'"
    and inv: "\<forall>sid. 0 \<le> stp_storage s sid"
  shows "\<forall>sid. 0 \<le> stp_storage s' sid"
  using step unfolding engine_step_def
proof (elim disjE bexE exE)
  fix stp assume "stp \<in> set (stp_df d)" and s': "s' = replenish stp s"
  then have "0 \<le> daily_output_tons stp" using out by blast
  then show ?thesis using inv by (simp add: s' replenish_def)
next
  fix demands assume "s' = s\<lparr>daily_demands := demands\<rparr>"
  then show ?thesis using inv by simp
next
  fix date_str sid assume "truck_step date_str sid s s'"
  then obtain fid where s': "s' = dispatch_truck date_str sid fid s"
    unfolding truck_step_def by blast
  show ?thesis using inv by (simp add: s' dispatch_truck_def Let_def)
qed

lemma engine_step_log:
  assumes step: "engine_step d s s'" and dm: "dm s = d"
  shows "solution s' = solution s
         \<or> (\<exists>e. solution s' = solution s @ [e]
                \<and> 0 < stp_storage s (e_stp_id e)
                \<and> tons_delivered e \<le> truck_capacity_tons (config d)
                \<and> tons_delivered e \<le> stp_storage s (e_stp_id e)
                \<and> stp_storage s' (e_stp_id e) = stp_storage s (e_stp_id e) - tons_delivered e)"
  using step unfolding engine_step_def
proof (elim disjE bexE exE)
  fix stp assume "s' = replenish stp s"
  then show ?thesis by (simp add: replenish_def)
next
  fix demands assume "s' = s\<lparr>daily_demands := demands\<rparr>"
  then show ?thesis by simp
next
  fix date_str sid assume "truck_step date_str sid s s'"
  then obtain fid where pos: "0 < stp_storage s sid" and s': "s' = dispatch_truck date_str sid fid s"
    unfolding truck_step_def by blast
  let ?e = "\<lparr>e_date = date_str, e_stp_id = sid, e_farm_id = fid,
             tons_delivered = min (truck_capacity_tons (config d)) (stp_storage s sid)\<rparr>"
  have "solution s' = solution s @ [?e]"
    by (simp add: s' dispatch_truck_def Let_def dm)
  moreover have "stp_storage s' (e_stp_id ?e) = stp_storage s (e_stp_id ?e) - tons_delivered ?e"
    by (simp add: s' dispatch_truck_def Let_def dm)
  ultimately show ?thesis using pos by (intro disjI2 exI [of _ ?e]) simp
qed

text \<open>
  C4. Let every plant's daily output be non-negative and run the solver from scratch,
  whether or not the run ends in an exception. In every state of the trace every plant's
  inventory is at least 0. The log starts empty, and every step of the trace either
  leaves the log as it is or appends one event, whose tons are at most the truck capacity
  and at most the inventory that the dispatching plant holds in the state before the
  step (the moment of dispatch); the step takes exactly those tons out of that inventory.
  So every event of the final log is at most one truck capacity.
\<close>

theorem C4_dispatch_within_truck_and_inventory:
  assumes out: "\<forall>p\<in>set (stp_df d). 0 \<le> daily_output_tons p"
    and run: "solve (GreedySolver d) = (err, t)"
  shows "(\<forall>s\<in>set (states t). \<forall>sid. 0 \<le> stp_storage s sid)
       \<and> solution (hd (states t)) = []
       \<and> successively
           (\<lambda>s s'. solution s' = solution s
                \<or> (\<exists>e. solution s' = solution s @ [e]
                       \<and> tons_delivered e \<le> truck_capacity_tons (config d)
                       \<and> tons_delivered e \<le> stp_storage s (e_stp_id e)
                       \<and> stp_storage s' (e_stp_id e) = stp_storage s (e_stp_id e) - tons_delivered e))
           (states t)
       \<and> (\<forall>e\<in>set (solution (now t)). tons_delivered e \<le> truck_capacity_tons (config d))"
proof -
  note tr = solve_trace [OF run]
  let ?init = "now (GreedySolver d)"
  let ?P = "\<lambda>s. (\<forall>sid. 0 \<le> stp_storage s sid) \<and> dm s = d
               \<and> (\<forall>e\<in>set (solution s). tons_delivered e \<le> truck_capacity_tons (config d))"
  obtain new where n: "states t = ?init # new"
    using tr(2) by (cases "states t") simp_all
  have init: "?P ?init" by (simp add: GreedySolver_def)
  have pres: "?P s'" if "?P s" "engine_step d s s'" for s s'
  proof -
    have "\<forall>sid. 0 \<le> stp_storage s' sid"
      using engine_step_storage_nonneg [OF out that(2)] that(1) by blast
    moreover have "dm s' = d" using engine_step_dm [OF that(2)] that(1) by simp
    moreover have "\<forall>e\<in>set (solution s'). tons_delivered e \<le> truck_capacity_tons (config d)"
      using engine_step_log [OF that(2)] that(1) by auto
    ultimately show ?thesis by blast
  qed
  have succ: "successively (engine_step d) (?init # new)" using tr(1) n by simp
  have "\<forall>s\<in>set new. ?P s"
    by (rule successively_invariant [where P = ?P, OF succ init]) (rule pres)
  then have all: "\<forall>s\<in>set (states t). ?P s" using init n by simp
  have 1: "\<forall>s\<in>set (states t). \<forall>sid. 0 \<le> stp_storage s sid" using all by blast
  have 2: "solution (hd (states t)) = []" using tr(2) by (simp add: GreedySolver_def)
  have "successively (\<lambda>s s'. engine_step d s s' \<and> ?P s \<and> ?P s') (states t)"
    by (rule successively_strengthen [OF tr(1) all])
  then have 3: "successively
           (\<lambda>s s'. solution s' = solution s
                \<or> (\<exists>e. solution s' = solution s @ [e]
                       \<and> tons_delivered e \<le> truck_capacity_tons (config d)
                       \<and> tons_delivered e \<le> stp_storage s (e_stp_id e)
                       \<and> stp_storage s' (e_stp_id e) = stp_storage s (e_stp_id e) - tons_delivered e))
           (states t)"
  proof (rule successively_mono)
    fix s s' assume "engine_step d s s' \<and> ?P s \<and> ?P s'"
    then have "engine_step d s s'" "dm s = d" by blast+
    from engine_step_log [OF this]
    show "solution s' = solution s
                \<or> (\<exists>e. solution s' = solution s @ [e]
                       \<and> tons_delivered e \<le> truck_capacity_tons (config d)
                       \<and> tons_delivered e \<le> stp_storage s (e_stp_id e)
                       \<and> stp_storage s' (e_stp_id e) = stp_storage s (e_stp_id e) - tons_delivered e)"
      by blast
  qed
  have "now t \<in> set (states t)" by (simp add: states_def)
  then have 4: "\<forall>e\<in>set (solution (now t)). tons_delivered e \<le> truck_capacity_tons (config d)"
    using all by blast
  from 1 2 3 4 show ?thesis by blast
qed

theorem C4_dispatch_witness:
  "0 \<le> stp_storage (now (snd (solve (GreedySolver dm_ex)))) ''S1''
   \<and> solution (hd (states (snd (solve (GreedySolver dm_ex))))) = []
   \<and> successively
           (\<lambda>s s'. solution s' = solution s
                \<or> (\<exists>e. solution s' = solution s @ [e]
                       \<and> tons_delivered e \<le> 10
                       \<and> tons_delivered e \<le> stp_storage s (e_stp_id e)
                       \<and> stp_storage s' (e_stp_id e) = stp_storage s (e_stp_id e) - tons_delivered e))
           (states (snd (solve (GreedySolver dm_ex))))"
proof -
  have out: "\<forall>p\<in>set (stp_df dm_ex). 0 \<le> daily_output_tons p"
    by (simp add: dm_ex_simps)
  have run: "solve (GreedySolver dm_ex) = (fst (solve (GreedySolver dm_ex)), snd (solve (GreedySolver dm_ex)))"
    by simp
  have cap: "truck_capacity_tons (config dm_ex) = 10" by (simp add: dm_ex_simps cfg_ex_def)
  have "now (snd (solve (GreedySolver dm_ex))) \<in> set (states (snd (solve (GreedySolver dm_ex))))"
    by (simp add: states_def)
  with C4_dispatch_within_truck_and_inventory [OF out run] show ?thesis
    unfolding cap by blast
qed

subsection \<open>Residual demand within a day\<close>

lemma fold_replenish_frame [simp]:
  "solution (now (fold (\<lambda>stp. commit (replenish stp)) ps t)) = solution (now t)"
  "daily_demands (now (fold (\<lambda>stp. commit (replenish stp)) ps t)) = daily_demands (now t)"
  by (induction ps arbitrary: t) (simp_all add: replenish_def)

lemma truck_step_residual:
  assumes step: "truck_step date_str sid s s'"
    and dm: "dm s = d"
    and truck: "0 \<le> truck_capacity_tons (config d)"
    and ncont: "0 \<le> nitrogen_content_kg_per_ton_biosolid (config d)"
    and log: "solution s = sol0 @ evs"
    and res: "\<forall>f. get0 (daily_demands s) f = max 0 (get0 dem f - delivered_n_to (config d) evs f)"
  shows "\<exists>e. solution s' = sol0 @ evs @ [e]
           \<and> (\<forall>f. get0 (daily_demands s') f
                    = max 0 (get0 dem f - delivered_n_to (config d) (evs @ [e]) f))
           \<and> (\<forall>f. get0 (daily_demands s') f \<le> get0 (daily_demands s) f)
           \<and> dm s' = d"
proof -
  from step obtain fid where pos: "0 < stp_storage s sid"
    and s': "s' = dispatch_truck date_str sid fid s"
    unfolding truck_step_def by blast
  let ?ship = "min (truck_capacity_tons (config d)) (stp_storage s sid)"
  let ?dn = "?ship * nitrogen_content_kg_per_ton_biosolid (config d)"
  let ?e = "\<lparr>e_date = date_str, e_stp_id = sid, e_farm_id = fid, tons_delivered = ?ship\<rparr>"
  have ship: "0 \<le> ?ship" using pos truck by simp
  then have dn: "0 \<le> ?dn" using ncont by simp
  have sol: "solution s' = sol0 @ evs @ [?e]"
    by (simp add: s' dispatch_truck_def Let_def dm log)
  have dd: "daily_demands s' = (daily_demands s)(fid \<mapsto> max 0 (get0 (daily_demands s) fid - ?dn))"
    by (simp add: s' dispatch_truck_def Let_def dm)
  have del: "delivered_n_to (config d) (evs @ [?e]) f
             = delivered_n_to (config d) evs f + (if fid = f then ?dn else 0)" for f
    by (simp add: delivered_n_to_def)
  have new: "get0 (daily_demands s') f
               = max 0 (get0 dem f - delivered_n_to (config d) (evs @ [?e]) f)" for f
  proof (cases "f = fid")
    case True
    have "get0 (daily_demands s') fid = max 0 (get0 (daily_demands s) fid - ?dn)"
      by (simp add: dd get0_def)
    also have "\<dots> = max 0 (max 0 (get0 dem fid - delivered_n_to (config d) evs fid) - ?dn)"
      using res by simp
    also have "\<dots> = max 0 (get0 dem fid - delivered_n_to (config d) evs fid - ?dn)"
      using dn by (simp add: max_def)
    finally show ?thesis by (simp add: True del algebra_simps)
  next
    case False
    then have "get0 (daily_demands s') f = get0 (daily_demands s) f"
      by (simp add: dd get0_def)
    then show ?thesis using res False by (simp add: del)
  qed
  have mono: "get0 (daily_demands s') f \<le> get0 (daily_demands s) f" for f
  proof (cases "f = fid")
    case True
    have "0 \<le> get0 (daily_demands s) fid" using res by simp
    then have "max 0 (get0 (daily_demands s) fid - ?dn) \<le> get0 (daily_demands s) fid"
      using dn by simp
    then show ?thesis by (simp add: True dd get0_def)
  next
    case False
    then show ?thesis by (simp add: dd get0_def)
  qed
  have "dm s' = d" by (simp add: s' dispatch_truck_def Let_def dm)
  with sol new mono show ?thesis by blast
qed

text \<open>
  C5. Let truck capacity and nitrogen content be non-negative and let \<open>dem\<close>, the demand
  row of the day, hold no negative cell. The states of a day from the moment the demand
  is fetched (\<open>day_states\<close>, which come after the states of the replenishment) start with
  the residual dictionary equal to \<open>dem\<close>; in each of them, for every farm, the residual
  demand is \<open>max 0\<close> of the original demand minus the nitrogen delivered to the farm by
  the events appended so far that day, and it is not negative; from each state to the
  next no farm's residual demand increases; and the data manager is the one the day
  started with, so that fetching the day's demand again after the day returns \<open>dem\<close>.
\<close>

theorem C5_residual_demand_within_a_day:
  assumes truck: "0 \<le> truck_capacity_tons (config (dm (now t)))"
    and ncont: "0 \<le> nitrogen_content_kg_per_ton_biosolid (config (dm (now t)))"
    and dem: "get_demand_for_day (dm (now t)) date = Inr dem"
    and nonneg: "\<forall>f. 0 \<le> get0 dem f"
    and day: "process_day date t = (err, t')"
  shows "\<exists>day_states.
           states t' = states (fold (\<lambda>stp. commit (replenish stp)) (stp_df (dm (now t))) t) @ day_states
         \<and> day_states \<noteq> []
         \<and> daily_demands (hd day_states) = dem
         \<and> (\<forall>s\<in>set day_states. \<forall>f.
               get0 (daily_demands s) f
                 = max 0 (get0 dem f
                          - delivered_n_to (config (dm (now t)))
                              (drop (length (solution (now t))) (solution s)) f)
               \<and> 0 \<le> get0 (daily_demands s) f
               \<and> dm s = dm (now t))
         \<and> successively (\<lambda>s s'. \<forall>f. get0 (daily_demands s') f \<le> get0 (daily_demands s) f) day_states
         \<and> get_demand_for_day (dm (now t')) date = Inr dem"
proof -
  let ?d = "dm (now t)"
  let ?sol0 = "solution (now t)"
  let ?t1 = "fold (\<lambda>stp. commit (replenish stp)) (stp_df ?d) t"
  let ?t2 = "commit (\<lambda>s. s\<lparr>daily_demands := dem\<rparr>) ?t1"
  let ?D = "\<lambda>s. dm s = ?d \<and> (\<exists>evs. solution s = ?sol0 @ evs
                \<and> (\<forall>f. get0 (daily_demands s) f = max 0 (get0 dem f - delivered_n_to (config ?d) evs f)))"
  let ?R = "\<lambda>s s'. \<exists>sid. truck_step date sid s s'"
  let ?M = "\<lambda>s s'. \<forall>f. get0 (daily_demands s') f \<le> get0 (daily_demands s) f"
  have D2: "?D (now ?t2)"
    using nonneg by (auto simp: delivered_n_to_def)
  have pres: "?D s'" if "?D s" "?R s s'" for s s'
  proof -
    from that obtain sid evs where st: "truck_step date sid s s'" and dm: "dm s = ?d"
      and log: "solution s = ?sol0 @ evs"
      and res: "\<forall>f. get0 (daily_demands s) f = max 0 (get0 dem f - delivered_n_to (config ?d) evs f)"
      by blast
    from truck_step_residual [OF st dm truck ncont log res] show ?thesis
      by auto
  qed
  have mono: "?M s s'" if "?R s s' \<and> ?D s \<and> ?D s'" for s s'
  proof -
    from that obtain sid evs where st: "truck_step date sid s s'" and dm: "dm s = ?d"
      and log: "solution s = ?sol0 @ evs"
      and res: "\<forall>f. get0 (daily_demands s) f = max 0 (get0 dem f - delivered_n_to (config ?d) evs f)"
      by blast
    from truck_step_residual [OF st dm truck ncont log res] show ?thesis by blast
  qed
  have concl: "get0 (daily_demands s) f
                 = max 0 (get0 dem f - delivered_n_to (config ?d) (drop (length ?sol0) (solution s)) f)
               \<and> 0 \<le> get0 (daily_demands s) f \<and> dm s = ?d" if "?D s" for s :: solver and f
  proof -
    from that obtain evs where "dm s = ?d" "solution s = ?sol0 @ evs"
      "\<forall>f. get0 (daily_demands s) f = max 0 (get0 dem f - delivered_n_to (config ?d) evs f)"
      by blast
    then show ?thesis by simp
  qed
  have grow: "grows ?R ?t2 t'" and dm': "dm (now t') = ?d"
  proof -
    show g: "grows ?R ?t2 t'"
    proof (cases "stp_status_rows (now ?t2) (stp_df (dm (now ?t2)))")
      case (Inl e)
      then have "t' = ?t2" using day dem by (simp add: process_day_def Let_def)
      then show ?thesis by (simp add: grows_refl)
    next
      case (Inr sts)
      then have "t' = fold (dispatch_logic date (valid_farms_on (dm (now ?t2)) date))
                        (sort_by_urgency sts) ?t2"
        using day dem by (simp add: process_day_def Let_def)
      then show ?thesis by (simp add: fold_dispatch_logic_grows)
    qed
    show "dm (now t') = ?d" by (rule process_day_dm [OF day])
  qed
  from grow obtain new where n: "states t' = states ?t2 @ new" "successively ?R (now ?t2 # new)"
    unfolding grows_def by blast
  let ?day = "now ?t2 # new"
  have "\<forall>s\<in>set new. ?D s"
    by (rule successively_invariant [where P = ?D, OF n(2) D2]) (rule pres)
  then have all: "\<forall>s\<in>set ?day. ?D s" using D2 by simp
  have "successively (\<lambda>s s'. ?R s s' \<and> ?D s \<and> ?D s') ?day"
    by (rule successively_strengthen [OF n(2) all])
  then have 5: "successively ?M ?day"
    by (rule successively_mono) (rule mono)
  have 1: "states t' = states ?t1 @ ?day" using n(1) by simp
  have 3: "daily_demands (hd ?day) = dem" by simp
  have 4: "\<forall>s\<in>set ?day. \<forall>f. get0 (daily_demands s) f
                 = max 0 (get0 dem f - delivered_n_to (config ?d) (drop (length ?sol0) (solution s)) f)
               \<and> 0 \<le> get0 (daily_demands s) f \<and> dm s = ?d"
    using all concl by blast
  have 6: "get_demand_for_day (dm (now t')) date = Inr dem" using dm' dem by simp
  show ?thesis
    by (rule exI [of _ ?day]) (use 1 3 4 5 6 in blast)
qed

lemma dm_ex_locks:
  "rain_locked dm_ex 739252 ''Z1''" "\<not> rain_locked dm_ex 739252 ''Z2''"
  by (simp_all add: dm_ex_def DataManager_def rain_locked_def compute_rain_lock_matrix_def
      forward_rolling_sum_def gt_threshold_def cfg_ex_def Let_def)

lemma dm_ex_farms:
  "farm_df dm_ex = [\<lparr>farm_id = ''F_1'', farm_lat = 0, farm_lon = 0, zone = ''Z1''\<rparr>,
      \<lparr>farm_id = ''F_2'', farm_lat = 0, farm_lon = 0, zone = ''Z2''\<rparr>]"
  by (simp add: dm_ex_def DataManager_def)

lemma dm_ex_valid: "valid_farms_on dm_ex 739252 = [''F_2'']"
  by (simp add: valid_farms_on_def get_farm_zone_map_def dm_ex_farms dm_ex_locks)

lemma dm_ex_first_day:
  "solution (now (snd (process_day 739252 (GreedySolver dm_ex))))
     = [\<lparr>e_date = 739252, e_stp_id = ''S1'', e_farm_id = ''F_2'', tons_delivered = 10\<rparr>]"
  by (simp add: process_day_def GreedySolver_def commit_def replenish_def dm_ex_simps
      dm_ex_demand [OF first_day_2025] dm_ex_valid stp_status_row_def sort_by_urgency_def
      dispatch_logic_def build_candidates_def sort_by_score_def dm_ex_distance
      score_candidate_def dispatch_truck_def cfg_ex_def get0_def Let_def)

theorem C5_residual_witness:
  "get0 (daily_demands (now (snd (process_day 739252 (GreedySolver dm_ex))))) ''F_2'' = 50
   \<and> get0 (daily_demands (now (snd (process_day 739252 (GreedySolver dm_ex))))) ''F_1'' = 100
   \<and> get_demand_for_day (dm (now (snd (process_day 739252 (GreedySolver dm_ex))))) 739252
       = Inr [''F_1'' \<mapsto> 100, ''F_2'' \<mapsto> 300]"
proof -
  let ?t = "GreedySolver dm_ex"
  let ?t' = "snd (process_day 739252 ?t)"
  have dm: "dm (now ?t) = dm_ex" by (simp add: GreedySolver_def)
  have truck: "0 \<le> truck_capacity_tons (config (dm (now ?t)))"
    and ncont: "0 \<le> nitrogen_content_kg_per_ton_biosolid (config (dm (now ?t)))"
    by (simp_all add: dm dm_ex_simps cfg_ex_def)
  have dem: "get_demand_for_day (dm (now ?t)) 739252 = Inr [''F_1'' \<mapsto> 100, ''F_2'' \<mapsto> 300]"
    unfolding dm by (rule dm_ex_demand [OF first_day_2025])
  have nonneg: "\<forall>f. 0 \<le> get0 [''F_1'' \<mapsto> 100, ''F_2'' \<mapsto> (300::rat)] f"
    by (simp add: get0_def)
  have day: "process_day 739252 ?t = (fst (process_day 739252 ?t), ?t')" by simp
  from C5_residual_demand_within_a_day [OF truck ncont dem nonneg day]
  obtain day_states where ds:
    "states ?t' = states (fold (\<lambda>stp. commit (replenish stp)) (stp_df (dm (now ?t))) ?t) @ day_states"
    "day_states \<noteq> []"
    "\<forall>s\<in>set day_states. \<forall>f.
        get0 (daily_demands s) f
          = max 0 (get0 [''F_1'' \<mapsto> 100, ''F_2'' \<mapsto> 300] f
                   - delivered_n_to (config (dm (now ?t)))
                       (drop (length (solution (now ?t))) (solution s)) f)
        \<and> 0 \<le> get0 (daily_demands s) f \<and> dm s = dm (now ?t)"
    "get_demand_for_day (dm (now ?t')) 739252 = Inr [''F_1'' \<mapsto> 100, ''F_2'' \<mapsto> 300]"
    by blast
  have "now ?t' = last (states ?t')" by simp
  also have "\<dots> = last day_states" unfolding ds(1) using ds(2) by simp
  finally have "now ?t' \<in> set day_states" using ds(2) by simp
  with ds(3) have "\<forall>f. get0 (daily_demands (now ?t')) f
          = max 0 (get0 [''F_1'' \<mapsto> 100, ''F_2'' \<mapsto> 300] f
                   - delivered_n_to (config (dm (now ?t)))
                       (drop (length (solution (now ?t))) (solution (now ?t'))) f)"
    by blast
  then have "get0 (daily_demands (now ?t')) ''F_2'' = 50" "get0 (daily_demands (now ?t')) ''F_1'' = 100"
    unfolding dm_ex_first_day
    by (simp_all add: GreedySolver_def delivered_n_to_def dm_ex_simps cfg_ex_def get0_def)
  with ds(4) show ?thesis by blast
qed


subsection \<open>Registry facts\<close>

lemma inner_fold_dom:
  "dom (fold (\<lambda>fm m. m((sid, farm_id fm) \<mapsto> h fm)) farms m0)
     = dom m0 \<union> (\<lambda>fm. (sid, farm_id fm)) ` set farms"
  by (induction farms arbitrary: m0) auto

lemma compute_distance_matrix_dom:
  "dom (compute_distance_matrix hav stps farms)
     = {(stp_id stp, farm_id fm) | stp fm. stp \<in> set stps \<and> fm \<in> set farms}"
proof -
  have "dom (fold (\<lambda>stp dist_matrix.
          fold (\<lambda>fm m. m((stp_id stp, farm_id fm) \<mapsto> hav (lat stp) (lon stp) (farm_lat fm) (farm_lon fm)))
            farms dist_matrix) stps m0)
        = dom m0 \<union> {(stp_id stp, farm_id fm) | stp fm. stp \<in> set stps \<and> fm \<in> set farms}" for m0
  proof (induction stps arbitrary: m0)
    case Nil
    then show ?case by simp
  next
    case (Cons p ps)
    show ?case
      unfolding fold_Cons comp_apply Cons.IH inner_fold_dom by auto
  qed
  from this [of Map.empty] show ?thesis
    by (simp add: compute_distance_matrix_def)
qed

lemma farm_zone_map_keys:
  "fst ` set (get_farm_zone_map d) = farm_id ` set (farm_df d)"
proof -
  have "fst ` set (fold (\<lambda>fm m. AList.update (farm_id fm) (zone fm) m) fs m0)
          = fst ` set m0 \<union> farm_id ` set fs" for fs :: "farm list" and m0 :: "(string \<times> string) list"
    by (induction fs arbitrary: m0) (auto simp: dom_update)
  from this [of "farm_df d" "[]"] show ?thesis
    by (simp add: get_farm_zone_map_def)
qed

lemma valid_farms_registered:
  "set (valid_farms_on d date) \<subseteq> farm_id ` set (farm_df d)"
  unfolding farm_zone_map_keys [symmetric] valid_farms_on_def by auto

lemma build_candidates_nonempty:
  assumes "fid \<in> set vf" and "distance_matrix d (sid, fid) = Some k"
  shows "build_candidates d sid cur dem vf \<noteq> []"
  using assms by (auto simp: build_candidates_def intro!: bexI [of _ fid])

subsection \<open>The ranking\<close>

lemma stp_status_rows_ok:
  assumes "\<forall>p\<in>set ps. storage_max_tons p \<noteq> 0"
  shows "\<exists>sts. stp_status_rows s ps = Inr sts
           \<and> map s_stp_id sts = map stp_id ps
           \<and> (\<forall>st\<in>set sts. current st = stp_storage s (s_stp_id st))
           \<and> (\<forall>p\<in>set ps. \<exists>st\<in>set sts. s_stp_id st = stp_id p \<and> s_max st = storage_max_tons p)"
  using assms
proof (induction ps)
  case Nil
  then show ?case by simp
next
  case (Cons p ps)
  then obtain sts where sts: "stp_status_rows s ps = Inr sts" "map s_stp_id sts = map stp_id ps"
    "\<forall>st\<in>set sts. current st = stp_storage s (s_stp_id st)"
    "\<forall>p\<in>set ps. \<exists>st\<in>set sts. s_stp_id st = stp_id p \<and> s_max st = storage_max_tons p"
    by auto
  from Cons.prems have "storage_max_tons p \<noteq> 0" by simp
  then obtain st where st: "stp_status_row s p = Inr st" "s_stp_id st = stp_id p"
    "current st = stp_storage s (stp_id p)" "s_max st = storage_max_tons p"
    by (simp add: stp_status_row_def Let_def)
  show ?case
    by (rule exI [of _ "st # sts"]) (use st sts in auto)
qed

lemma sort_by_urgency_set [simp]: "set (sort_by_urgency sts) = set sts"
  by (simp add: sort_by_urgency_def)

lemma sort_by_urgency_distinct:
  assumes "distinct (map s_stp_id sts)"
  shows "distinct (map s_stp_id (sort_by_urgency sts))"
proof -
  have "card (s_stp_id ` set sts) = length sts"
    using assms distinct_card [of "map s_stp_id sts"] by simp
  then have "card (set (map s_stp_id (sort_by_urgency sts))) = length (map s_stp_id (sort_by_urgency sts))"
    by (simp add: sort_by_urgency_def)
  then show ?thesis by (rule card_distinct)
qed

subsection \<open>What a dispatch changes\<close>

lemma truck_step_frame:
  assumes "truck_step date_str sid' s s'"
  shows "dm s' = dm s"
    and "\<exists>e. solution s' = solution s @ [e] \<and> e_stp_id e = sid' \<and> e_date e = date_str"
    and "sid' \<noteq> sid \<Longrightarrow> stp_storage s' sid = stp_storage s sid"
  using assms by (auto simp: truck_step_def dispatch_truck_def Let_def)

lemma grows_trucks_frame:
  assumes g: "grows (\<lambda>s s'. \<exists>sid'\<in>A. truck_step date_str sid' s s') t t'"
  shows "dm (now t') = dm (now t)"
    and "\<exists>evs. solution (now t') = solution (now t) @ evs"
    and "sid \<notin> A \<Longrightarrow> stp_storage (now t') sid = stp_storage (now t) sid"
proof -
  show "dm (now t') = dm (now t)"
    by (rule grows_invariant [OF g, where P = "\<lambda>s. dm s = dm (now t)"])
       (auto dest: truck_step_frame(1))
  show "\<exists>evs. solution (now t') = solution (now t) @ evs"
  proof (rule grows_invariant [OF g, where P = "\<lambda>s. \<exists>evs. solution s = solution (now t) @ evs"])
    show "\<exists>evs. solution (now t) = solution (now t) @ evs" by simp
  next
    fix s s' assume "\<exists>evs. solution s = solution (now t) @ evs"
      and "\<exists>sid'\<in>A. truck_step date_str sid' s s'"
    then obtain evs e where "solution s = solution (now t) @ evs" "solution s' = solution s @ [e]"
      using truck_step_frame(2) by blast
    then have "solution s' = solution (now t) @ (evs @ [e])" by simp
    then show "\<exists>evs. solution s' = solution (now t) @ evs" by blast
  qed
  show "stp_storage (now t') sid = stp_storage (now t) sid" if "sid \<notin> A"
  proof (rule grows_invariant [OF g, where P = "\<lambda>s. stp_storage s sid = stp_storage (now t) sid"])
    show "stp_storage (now t) sid = stp_storage (now t) sid" ..
  next
    fix s s' assume inv: "stp_storage s sid = stp_storage (now t) sid"
      and "\<exists>sid'\<in>A. truck_step date_str sid' s s'"
    then obtain sid' where "sid' \<in> A" and st: "truck_step date_str sid' s s'" by blast
    then have "sid' \<noteq> sid" using that by blast
    from truck_step_frame(3) [OF st this] inv
    show "stp_storage s' sid = stp_storage (now t) sid" by simp
  qed
qed

lemma dispatch_logic_grows_in:
  assumes "s_stp_id st \<in> A"
  shows "grows (\<lambda>s s'. \<exists>sid'\<in>A. truck_step date_str sid' s s') t (dispatch_logic date_str vf st t)"
  by (rule grows_mono [OF dispatch_logic_grows]) (use assms in blast)

lemma fold_dispatch_logic_grows_in:
  assumes "s_stp_id ` set sts \<subseteq> A"
  shows "grows (\<lambda>s s'. \<exists>sid'\<in>A. truck_step date_str sid' s s') t
           (fold (dispatch_logic date_str vf) sts t)"
  using assms
proof (induction sts arbitrary: t)
  case Nil
  then show ?case by (simp add: grows_refl)
next
  case (Cons st sts)
  have "grows (\<lambda>s s'. \<exists>sid'\<in>A. truck_step date_str sid' s s') t (dispatch_logic date_str vf st t)"
    by (rule dispatch_logic_grows_in) (use Cons.prems in simp)
  then show ?case using Cons.IH Cons.prems by (auto intro: grows_trans)
qed

lemma replenish_storage:
  "stp_storage (replenish p s) x
     = (if x = stp_id p then stp_storage s x + daily_output_tons p else stp_storage s x)"
  by (simp add: replenish_def)

lemma fold_replenish_storage_other:
  assumes "sid \<notin> stp_id ` set ps"
  shows "stp_storage (now (fold (\<lambda>stp. commit (replenish stp)) ps t)) sid = stp_storage (now t) sid"
  using assms by (induction ps arbitrary: t) (simp_all add: replenish_storage)

lemma fold_replenish_storage:
  assumes "distinct (map stp_id ps)" and "p \<in> set ps"
  shows "stp_storage (now (fold (\<lambda>stp. commit (replenish stp)) ps t)) (stp_id p)
         = stp_storage (now t) (stp_id p) + daily_output_tons p"
  using assms
proof (induction ps arbitrary: t rule: rev_induct)
  case Nil
  then show ?case by simp
next
  case (snoc q qs)
  show ?case
  proof (cases "p = q")
    case True
    have "stp_id q \<notin> stp_id ` set qs" using snoc.prems(1) by simp
    then have "stp_storage (now (fold (\<lambda>stp. commit (replenish stp)) qs t)) (stp_id q)
               = stp_storage (now t) (stp_id q)"
      by (rule fold_replenish_storage_other)
    then show ?thesis by (simp add: True replenish_storage)
  next
    case False
    then have "p \<in> set qs" "stp_id q \<noteq> stp_id p" using snoc.prems by auto
    then show ?thesis using snoc.IH [of t] snoc.prems(1) by (simp add: replenish_storage)
  qed
qed

subsection \<open>An overflowing plant dispatches\<close>

lemma grows_states:
  assumes "grows R t t'"
  shows "\<exists>new. states t' = states t @ new"
  using assms unfolding grows_def by blast

lemma dispatch_truck_event:
  "\<exists>e. solution (dispatch_truck date_str sid fid s) = solution s @ [e]
       \<and> e_date e = date_str \<and> e_stp_id e = sid
       \<and> tons_delivered e = min (truck_capacity_tons (config (dm s))) (stp_storage s sid)
       \<and> stp_storage (dispatch_truck date_str sid fid s) sid = stp_storage s sid - tons_delivered e"
  by (simp add: dispatch_truck_def Let_def)

lemma dispatch_logic_urgent:
  assumes cur: "current st = stp_storage (now t) (s_stp_id st)"
    and pos: "0 < stp_storage (now t) (s_stp_id st)"
    and over: "s_max st < stp_storage (now t) (s_stp_id st)"
    and fid: "fid \<in> set vf"
    and dist: "distance_matrix (dm (now t)) (s_stp_id st, fid) = Some k"
  shows "\<exists>fid' new evs.
           states (dispatch_logic date_str vf st t)
             = states t @ dispatch_truck date_str (s_stp_id st) fid' (now t) # new
         \<and> solution (now (dispatch_logic date_str vf st t))
             = solution (dispatch_truck date_str (s_stp_id st) fid' (now t)) @ evs"
proof -
  let ?sid = "s_stp_id st"
  let ?cands = "sort_by_score (build_candidates (dm (now t)) ?sid (current st)
                  (daily_demands (now t)) vf)"
  have "build_candidates (dm (now t)) ?sid (current st) (daily_demands (now t)) vf \<noteq> []"
    by (rule build_candidates_nonempty [OF fid dist])
  then have "length ?cands \<noteq> 0" by (simp add: sort_by_score_def)
  then obtain c rest where cands: "?cands = c # rest" by (cases ?cands) auto
  let ?t1 = "commit (dispatch_truck date_str ?sid (c_farm_id c)) t"
  have "dispatch_logic date_str vf st t = greedy_dispatch date_str st ?cands t"
    using pos cur by (simp add: dispatch_logic_def Let_def)
  also have "\<dots> = greedy_dispatch date_str st (c # rest) t"
    by (simp only: cands)
  also have "\<dots> = greedy_dispatch date_str st rest ?t1"
    using pos over by (simp add: Let_def)
  finally have eq: "dispatch_logic date_str vf st t = greedy_dispatch date_str st rest ?t1" .
  have g: "grows (\<lambda>s s'. \<exists>sid'\<in>{?sid}. truck_step date_str sid' s s') ?t1
          (greedy_dispatch date_str st rest ?t1)"
    by (rule grows_mono [OF greedy_dispatch_grows]) blast
  from grows_states [OF g] obtain new where
    "states (greedy_dispatch date_str st rest ?t1) = states ?t1 @ new" by blast
  then have 1: "states (dispatch_logic date_str vf st t)
                  = states t @ dispatch_truck date_str ?sid (c_farm_id c) (now t) # new"
    unfolding eq by simp
  from grows_trucks_frame(2) [OF g] obtain evs where
    "solution (now (greedy_dispatch date_str st rest ?t1)) = solution (now ?t1) @ evs" by blast
  then have 2: "solution (now (dispatch_logic date_str vf st t))
                  = solution (dispatch_truck date_str ?sid (c_farm_id c) (now t)) @ evs"
    unfolding eq by simp
  from 1 2 show ?thesis by blast
qed

text \<open>
  C6. Let the data manager be one its constructor built, with distinct plant ids and no
  plant of capacity 0, and let the day have a demand row. If a plant's inventory after
  the day's output, \<open>held\<close>, exceeds its capacity and is positive, and at least one farm
  is not rain-locked that day, then the day ends without an exception and its trace has
  a step, after the states the day started from, that dispatches from this plant: before
  the step the plant holds \<open>held\<close>, the step appends one event of this plant and date
  whose tons are \<open>min truck_capacity held\<close>, and after the step the plant holds \<open>held\<close>
  minus those tons. The event is among the events appended that day. No assumption is
  made on any score.
\<close>

theorem C6_overflowing_plant_dispatches:
  assumes d: "dm (now t) = DataManager hav cfg stps farms zones weather demand_rows"
    and ids: "distinct (map stp_id stps)"
    and caps: "\<forall>p\<in>set stps. storage_max_tons p \<noteq> 0"
    and dem: "get_demand_for_day (dm (now t)) date = Inr dem"
    and stp: "stp \<in> set stps"
    and held: "held = stp_storage (now t) (stp_id stp) + daily_output_tons stp"
    and over: "storage_max_tons stp < held"
    and pos: "0 < held"
    and valid: "valid_farms_on (dm (now t)) date \<noteq> []"
  shows "fst (process_day date t) = None
       \<and> (\<exists>e s s' pre post.
             states (snd (process_day date t)) = pre @ s # s' # post
           \<and> length (states t) \<le> length pre
           \<and> stp_storage s (stp_id stp) = held
           \<and> solution s' = solution s @ [e]
           \<and> e_stp_id e = stp_id stp \<and> e_date e = date
           \<and> tons_delivered e = min (truck_capacity_tons cfg) held
           \<and> stp_storage s' (stp_id stp) = held - tons_delivered e
           \<and> e \<in> set (drop (length (solution (now t))) (solution (now (snd (process_day date t))))))"
proof -
  let ?d = "dm (now t)"
  let ?sid = "stp_id stp"
  have df: "stp_df ?d = stps" "farm_df ?d = farms"
    "distance_matrix ?d = compute_distance_matrix hav stps farms" "config ?d = cfg"
    by (simp_all add: d DataManager_def)
  let ?t1 = "fold (\<lambda>stp. commit (replenish stp)) stps t"
  let ?t2 = "commit (\<lambda>s. s\<lparr>daily_demands := dem\<rparr>) ?t1"
  let ?vf = "valid_farms_on ?d date"
  have dm2: "dm (now ?t2) = ?d" by simp
  have sol2: "solution (now ?t2) = solution (now t)" by simp
  have inv2: "stp_storage (now ?t2) ?sid = held"
    using fold_replenish_storage [OF ids stp, of t] by (simp add: held)
  have "grows (\<lambda>s s'. \<exists>p\<in>set (stp_df ?d). s' = replenish p s) t ?t1"
    by (rule fold_replenish_grows) (simp add: df)
  from grows_states [OF this] obtain new1 where st1: "states ?t1 = states t @ new1" by blast
  from stp_status_rows_ok [OF caps, of "now ?t2"] obtain sts where
    sts: "stp_status_rows (now ?t2) stps = Inr sts" "map s_stp_id sts = map stp_id stps"
      "\<forall>st\<in>set sts. current st = stp_storage (now ?t2) (s_stp_id st)"
      "\<forall>p\<in>set stps. \<exists>st\<in>set sts. s_stp_id st = stp_id p \<and> s_max st = storage_max_tons p"
    by blast
  let ?t3 = "fold (dispatch_logic date ?vf) (sort_by_urgency sts) ?t2"
  have day: "process_day date t = (None, ?t3)"
    using dem sts(1) by (simp add: process_day_def Let_def df)
  from sts(4) stp obtain st where st: "st \<in> set sts" "s_stp_id st = ?sid"
    "s_max st = storage_max_tons stp"
    by blast
  have "st \<in> set (sort_by_urgency sts)" using st(1) by simp
  then obtain xs ys where split: "sort_by_urgency sts = xs @ st # ys"
    by (meson split_list)
  have "distinct (map s_stp_id (sort_by_urgency sts))"
    by (rule sort_by_urgency_distinct) (simp add: sts(2) ids)
  then have others: "?sid \<notin> s_stp_id ` set xs"
    unfolding split using st(2) by auto
  let ?tx = "fold (dispatch_logic date ?vf) xs ?t2"
  let ?ty = "dispatch_logic date ?vf st ?tx"
  have gx: "grows (\<lambda>s s'. \<exists>sid'\<in>s_stp_id ` set xs. truck_step date sid' s s') ?t2 ?tx"
    by (rule fold_dispatch_logic_grows_in) simp
  have dmx: "dm (now ?tx) = ?d" using grows_trucks_frame(1) [OF gx] dm2 by simp
  have invx: "stp_storage (now ?tx) ?sid = held"
    using grows_trucks_frame(3) [OF gx others] inv2 by simp
  obtain evs0 where solx: "solution (now ?tx) = solution (now ?t2) @ evs0"
    using grows_trucks_frame(2) [OF gx] by blast
  from grows_states [OF gx] obtain newx where stx: "states ?tx = states ?t2 @ newx" by blast
  from valid obtain fid where fid: "fid \<in> set ?vf" by (cases ?vf) auto
  then have "fid \<in> farm_id ` set farms"
    using valid_farms_registered [of ?d date] df(2) by auto
  then have "(?sid, fid) \<in> dom (compute_distance_matrix hav stps farms)"
    unfolding compute_distance_matrix_dom using stp by auto
  then obtain k where k: "distance_matrix (dm (now ?tx)) (s_stp_id st, fid) = Some k"
    unfolding dmx df(3) st(2) by blast
  have cur: "current st = stp_storage (now ?tx) (s_stp_id st)"
    unfolding st(2) invx using sts(3) st(1,2) inv2 by auto
  have posx: "0 < stp_storage (now ?tx) (s_stp_id st)"
    unfolding st(2) invx by (rule pos)
  have overx: "s_max st < stp_storage (now ?tx) (s_stp_id st)"
    unfolding st(2,3) invx by (rule over)
  from dispatch_logic_urgent [OF cur posx overx fid k, of date]
  obtain fid' new evs where
    sty: "states ?ty = states ?tx @ dispatch_truck date ?sid fid' (now ?tx) # new"
    and soly: "solution (now ?ty) = solution (dispatch_truck date ?sid fid' (now ?tx)) @ evs"
    unfolding st(2) by blast
  let ?s = "now ?tx"
  let ?s' = "dispatch_truck date ?sid fid' ?s"
  from dispatch_truck_event [of date ?sid fid' ?s] obtain e where
    e: "solution ?s' = solution ?s @ [e]" "e_date e = date" "e_stp_id e = ?sid"
       "tons_delivered e = min (truck_capacity_tons cfg) held"
       "stp_storage ?s' ?sid = held - tons_delivered e"
    unfolding dmx df(4) invx by blast
  have t3: "?t3 = fold (dispatch_logic date ?vf) ys ?ty"
    by (simp add: split)
  have gy: "grows (\<lambda>s s'. \<exists>sid'\<in>s_stp_id ` set ys. truck_step date sid' s s') ?ty
          (fold (dispatch_logic date ?vf) ys ?ty)"
    by (rule fold_dispatch_logic_grows_in) simp
  from grows_trucks_frame(2) [OF gy] obtain evs1 where
    "solution (now ?t3) = solution (now ?ty) @ evs1"
    unfolding t3 by blast
  then have "solution (now ?t3) = solution (now t) @ (evs0 @ e # evs @ evs1)"
    using e(1) soly solx sol2 by simp
  then have mem: "e \<in> set (drop (length (solution (now t))) (solution (now ?t3)))"
    by simp
  from grows_states [OF gy] obtain new2 where "states ?t3 = states ?ty @ new2"
    unfolding t3 by blast
  then have dec: "states ?t3 = past ?tx @ ?s # ?s' # (new @ new2)"
    using sty by (simp add: states_def)
  have "length (states ?tx) = length (states t) + length new1 + 1 + length newx"
    using stx st1 by simp
  then have len: "length (states t) \<le> length (past ?tx)"
    by (simp add: states_def)
  have "\<exists>e s s' pre post.
             states ?t3 = pre @ s # s' # post
           \<and> length (states t) \<le> length pre
           \<and> stp_storage s ?sid = held
           \<and> solution s' = solution s @ [e]
           \<and> e_stp_id e = ?sid \<and> e_date e = date
           \<and> tons_delivered e = min (truck_capacity_tons cfg) held
           \<and> stp_storage s' ?sid = held - tons_delivered e
           \<and> e \<in> set (drop (length (solution (now t))) (solution (now ?t3)))"
    using dec len invx e mem by blast
  then show ?thesis unfolding day by simp
qed

lemma dm_urgent_simps:
  "stp_df dm_urgent = [\<lparr>stp_id = ''S1'', lat = 0, lon = 0, daily_output_tons = 25, storage_max_tons = 20\<rparr>]"
  "farm_df dm_urgent = [\<lparr>farm_id = ''F_1'', farm_lat = 0, farm_lon = 0, zone = ''Z1''\<rparr>]"
  "demand_df dm_urgent = [(739252, [''F_1'' \<mapsto> 0])]"
  "rain_lock_matrix dm_urgent = Map.empty"
  by (simp_all add: dm_urgent_def DataManager_def compute_rain_lock_matrix_def)

lemma dm_urgent_valid: "valid_farms_on dm_urgent 739252 = [''F_1'']"
  by (simp add: valid_farms_on_def get_farm_zone_map_def dm_urgent_simps rain_locked_def)

theorem C6_urgent_witness:
  "score (score_candidate cfg_ex 25 [''F_1'' \<mapsto> 0] ''F_1'' 7) < 0
   \<and> fst (process_day 739252 (GreedySolver dm_urgent)) = None
   \<and> (\<exists>e s s' pre post.
         states (snd (process_day 739252 (GreedySolver dm_urgent))) = pre @ s # s' # post
       \<and> stp_storage s ''S1'' = 25
       \<and> solution s' = solution s @ [e]
       \<and> e_stp_id e = ''S1'' \<and> e_date e = 739252
       \<and> tons_delivered e = 10
       \<and> stp_storage s' ''S1'' = 15
       \<and> e \<in> set (solution (now (snd (process_day 739252 (GreedySolver dm_urgent))))))"
proof -
  let ?t = "GreedySolver dm_urgent"
  let ?stp = "\<lparr>stp_id = ''S1'', lat = 0, lon = 0, daily_output_tons = 25, storage_max_tons = 20\<rparr>"
  have dm: "dm (now ?t) = dm_urgent" by (simp add: GreedySolver_def)
  have d: "dm (now ?t) = DataManager (\<lambda>lat1 lon1 lat2 lon2. 7) cfg_ex [?stp]
     [\<lparr>farm_id = ''F_1'', farm_lat = 0, farm_lon = 0, zone = ''Z1''\<rparr>] [''Z1''] []
     [(739252, [''F_1'' \<mapsto> 0])]"
    unfolding dm by (rule dm_urgent_def)
  have ids: "distinct (map stp_id [?stp])" by simp
  have caps: "\<forall>p\<in>set [?stp]. storage_max_tons p \<noteq> 0" by simp
  have dem: "get_demand_for_day (dm (now ?t)) 739252 = Inr [''F_1'' \<mapsto> 0]"
    by (simp add: dm get_demand_for_day_def dm_urgent_simps)
  have stp: "?stp \<in> set [?stp]" by simp
  have held: "25 = stp_storage (now ?t) (stp_id ?stp) + daily_output_tons ?stp"
    by (simp add: GreedySolver_def)
  have over: "storage_max_tons ?stp < 25" and pos: "(0::rat) < 25" by simp_all
  have valid: "valid_farms_on (dm (now ?t)) 739252 \<noteq> []"
    by (simp add: dm dm_urgent_valid)
  have neg: "score (score_candidate cfg_ex 25 [''F_1'' \<mapsto> 0] ''F_1'' 7) < 0"
    by (simp add: score_candidate_def cfg_ex_def get0_def Let_def)
  have cap: "min (truck_capacity_tons cfg_ex) 25 = 10" by (simp add: cfg_ex_def)
  let ?t' = "snd (process_day 739252 ?t)"
  from C6_overflowing_plant_dispatches [OF d ids caps dem stp held over pos valid]
  obtain e s s' pre post where ok: "fst (process_day 739252 ?t) = None"
    and tr: "states ?t' = pre @ s # s' # post"
      "stp_storage s (stp_id ?stp) = 25" "solution s' = solution s @ [e]"
      "e_stp_id e = stp_id ?stp" "e_date e = 739252"
      "tons_delivered e = min (truck_capacity_tons cfg_ex) 25"
      "stp_storage s' (stp_id ?stp) = 25 - tons_delivered e"
      "e \<in> set (drop (length (solution (now ?t))) (solution (now ?t')))"
    by blast
  have 1: "stp_storage s ''S1'' = 25" "e_stp_id e = ''S1''" using tr(2,4) by simp_all
  have 2: "tons_delivered e = 10" using tr(6) cap by simp
  have 3: "stp_storage s' ''S1'' = 15" using tr(7) 2 by simp
  have 4: "e \<in> set (solution (now ?t'))" using tr(8) by (simp add: GreedySolver_def)
  from ok neg tr(1,3,5) 1 2 3 4 show ?thesis by blast
qed

subsection \<open>Overflow: the replay clamps, the solver does not\<close>

lemma check_overflow_storage:
  "r_stp_storage (check_overflow cfg q a) x
     = (if x = stp_id q then min (r_stp_storage a x) (storage_max_tons q) else r_stp_storage a x)"
  by (simp add: check_overflow_def Let_def min_def)

lemma fold_check_overflow_other:
  assumes "x \<notin> stp_id ` set ps"
  shows "r_stp_storage (fold (check_overflow cfg) ps a) x = r_stp_storage a x"
  using assms by (induction ps arbitrary: a) (simp_all add: check_overflow_storage)

lemma fold_check_overflow_clamps:
  assumes "distinct (map stp_id ps)" and "p \<in> set ps"
  shows "r_stp_storage (fold (check_overflow cfg) ps a) (stp_id p)
         = min (r_stp_storage a (stp_id p)) (storage_max_tons p)"
  using assms
proof (induction ps arbitrary: a rule: rev_induct)
  case Nil
  then show ?case by simp
next
  case (snoc q qs)
  show ?case
  proof (cases "p = q")
    case True
    have "stp_id q \<notin> stp_id ` set qs" using snoc.prems(1) by simp
    then have "r_stp_storage (fold (check_overflow cfg) qs a) (stp_id q) = r_stp_storage a (stp_id q)"
      by (rule fold_check_overflow_other)
    then show ?thesis by (simp add: True check_overflow_storage)
  next
    case False
    then have "p \<in> set qs" "stp_id q \<noteq> stp_id p" using snoc.prems by auto
    then show ?thesis using snoc.IH [of a] snoc.prems(1) by (simp add: check_overflow_storage)
  qed
qed

lemma replay_storage_within_capacity:
  assumes day: "metrics_day d sol date a = Inr a'"
    and ids: "distinct (map stp_id (stp_df d))"
    and p: "p \<in> set (stp_df d)"
  shows "r_stp_storage a' (stp_id p) \<le> storage_max_tons p"
proof -
  from day obtain b where "a' = fold (check_overflow (config d)) (stp_df d) b"
    by (auto simp: metrics_day_def Let_def split: if_splits sum.splits)
  then show ?thesis
    using fold_check_overflow_clamps [OF ids p] by simp
qed

lemma dm_locked_simps:
  "config dm_locked = cfg_ex"
  "stp_df dm_locked = [\<lparr>stp_id = ''S1'', lat = 0, lon = 0, daily_output_tons = 25, storage_max_tons = 20\<rparr>]"
  "farm_df dm_locked = [\<lparr>farm_id = ''F_1'', farm_lat = 0, farm_lon = 0, zone = ''Z1''\<rparr>]"
  "demand_df dm_locked = map (\<lambda>date. (date, [''F_1'' \<mapsto> 100])) (year_dates 2025)"
  by (simp_all add: dm_locked_def DataManager_def)

lemma dm_locked_demand: "get_demand_for_day dm_locked 739252 = Inr [''F_1'' \<mapsto> 100]"
  by (rule get_demand_for_day_every_date [OF dm_locked_simps(4) first_day_2025])

lemma dm_locked_lock: "rain_locked dm_locked 739252 ''Z1''"
  by (simp add: dm_locked_def DataManager_def rain_locked_def compute_rain_lock_matrix_def
      forward_rolling_sum_def gt_threshold_def cfg_ex_def Let_def)

lemma dm_locked_valid: "valid_farms_on dm_locked 739252 = []"
  by (simp add: valid_farms_on_def get_farm_zone_map_def dm_locked_simps dm_locked_lock)


text \<open>
  C1. The claim: after the dispatch decisions of a day, an inventory above the capacity
  is cut back to the capacity and the excess is penalised. The solver's \<^verbatim>\<open>_process_day\<close>
  has no such step. On \<open>dm_locked\<close> (output 25, capacity 20, the only farm rain-locked)
  the first day ends without an exception and without a dispatch, and the solver's
  inventory is 25, above the capacity of 20. The replay of the empty solution over the
  same day cuts its own copy of the inventory to 20 and charges 5 tons at 1000.
\<close>

theorem C1_solver_keeps_inventory_above_capacity:
  "fst (process_day 739252 (GreedySolver dm_locked)) = None
   \<and> solution (now (snd (process_day 739252 (GreedySolver dm_locked)))) = []
   \<and> stp_storage (now (snd (process_day 739252 (GreedySolver dm_locked)))) ''S1'' = 25
   \<and> map storage_max_tons (stp_df dm_locked) = [20]
   \<and> (\<exists>a. metrics_day dm_locked [] 739252 initial_tally = Inr a
          \<and> r_stp_storage a ''S1'' = 20 \<and> total_overflow_penalty a = 5000)"
proof -
  have "fst (process_day 739252 (GreedySolver dm_locked)) = None
   \<and> solution (now (snd (process_day 739252 (GreedySolver dm_locked)))) = []
   \<and> stp_storage (now (snd (process_day 739252 (GreedySolver dm_locked)))) ''S1'' = 25
   \<and> map storage_max_tons (stp_df dm_locked) = [20]"
    by (simp add: process_day_def GreedySolver_def commit_def replenish_def dm_locked_simps(1-3)
        dm_locked_demand dm_locked_valid stp_status_row_def sort_by_urgency_def
        dispatch_logic_def build_candidates_def sort_by_score_def Let_def)
  moreover have "\<exists>a. metrics_day dm_locked [] 739252 initial_tally = Inr a
          \<and> r_stp_storage a ''S1'' = 20 \<and> total_overflow_penalty a = 5000"
    by (simp add: metrics_day_def initial_tally_def update_flow_def check_overflow_def
        dm_locked_simps(1-3) cfg_ex_def Let_def)
  ultimately show ?thesis by blast
qed

subsection \<open>The replay: rows without a distance entry\<close>

lemma calculate_metrics_run_ok_iff:
  "(\<exists>m. calculate_metrics_run td dd d sol = Inr m) \<longleftrightarrow>
   (sol \<noteq> [] \<and> (\<forall>date\<in>set (year_dates (year (config d))). day_replays d sol date)
    \<and> td = Float64 \<and> dd = Float64 \<and> dist_column_dtype d sol = Float64)"
proof (cases "calculate_metrics d sol")
  case (Inl e)
  then have "\<not> (\<exists>m. calculate_metrics d sol = Inr m)" by simp
  then have "\<not> (\<forall>date\<in>set (year_dates (year (config d))). day_replays d sol date)"
    unfolding calculate_metrics_ok_iff .
  then show ?thesis using Inl by (auto simp: calculate_metrics_run_def)
next
  case (Inr m)
  then have "\<exists>m. calculate_metrics d sol = Inr m" by simp
  then have ok: "\<forall>date\<in>set (year_dates (year (config d))). day_replays d sol date"
    unfolding calculate_metrics_ok_iff .
  have dt: "x \<noteq> Int64 \<longleftrightarrow> x = Float64" for x :: dtype by (cases x) simp_all
  show ?thesis using Inr ok by (auto simp: calculate_metrics_run_def dt)
qed

lemma calculate_metrics_run_values:
  assumes "calculate_metrics_run td dd d sol = Inr m"
  shows "calculate_metrics d sol = Inr m"
  using assms by (auto simp: calculate_metrics_run_def split: if_splits sum.splits)

lemma day_replays_insert:
  assumes rest: "day_replays d (pre @ post) date"
    and plant: "e_stp_id row \<in> stp_id ` set (stp_df d)"
    and dem: "e_date row = date \<longrightarrow> (\<exists>dem. get_demand_for_day d date = Inr dem)"
  shows "day_replays d (pre @ row # post) date"
  using assms unfolding day_replays_def by (auto simp: filter_empty_conv split: if_splits)

text \<open>
  C10, as amended. Take a solution row whose (plant, farm) pair has no entry in the
  distance matrix, whose plant is registered, and whose day, if it is a day of the year,
  has a demand row. If the run of \<^verbatim>\<open>calculate_metrics\<close> on the solution without the row
  ends without an exception, so does the run on the solution with the row: the row is
  replayed with distance 0, both runs report the same transport emission and the same
  round-trip kilometres, and the row's tons are counted as delivered.
\<close>

theorem C10_unknown_farm_counts_as_zero:
  assumes nodist: "distance_matrix d (e_stp_id row, e_farm_id row) = None"
    and plant: "e_stp_id row \<in> stp_id ` set (stp_df d)"
    and dem: "e_date row \<notin> set (year_dates (year (config d)))
              \<or> (\<exists>dem. get_demand_for_day d (e_date row) = Inr dem)"
    and rest: "calculate_metrics_run tons_dtype demand_dtype d (pre @ post) = Inr m'"
  shows "\<exists>m. calculate_metrics_run tons_dtype demand_dtype d (pre @ row # post) = Inr m
           \<and> row_dist d row = 0
           \<and> total_transport_emission (totals m) = total_transport_emission (totals m')
           \<and> total_round_trip_km m = total_round_trip_km m'
           \<and> total_delivered_tons m = total_delivered_tons m' + tons_delivered row"
proof -
  have zero: "row_dist d row = 0"
    using nodist by (simp add: row_dist_def get0_def)
  have "\<exists>m. calculate_metrics_run tons_dtype demand_dtype d (pre @ post) = Inr m"
    using rest by blast
  then have ok: "pre @ post \<noteq> []"
      "\<forall>date\<in>set (year_dates (year (config d))). day_replays d (pre @ post) date"
      "tons_dtype = Float64" "demand_dtype = Float64" "dist_column_dtype d (pre @ post) = Float64"
    unfolding calculate_metrics_run_ok_iff by blast+
  have days: "\<forall>date\<in>set (year_dates (year (config d))). day_replays d (pre @ row # post) date"
  proof
    fix date assume date: "date \<in> set (year_dates (year (config d)))"
    then have "day_replays d (pre @ post) date" using ok(2) by blast
    moreover have "e_date row = date \<longrightarrow> (\<exists>dem. get_demand_for_day d date = Inr dem)"
      using dem date by auto
    ultimately show "day_replays d (pre @ row # post) date"
      using plant by (intro day_replays_insert)
  qed
  have dist: "dist_column_dtype d (pre @ row # post) = Float64"
    using ok(5) by (auto simp: dist_column_dtype_def list_all_iff split: if_splits)
  have "\<exists>m. calculate_metrics_run tons_dtype demand_dtype d (pre @ row # post) = Inr m"
    unfolding calculate_metrics_run_ok_iff using days dist ok(3,4) by simp
  then obtain m where run: "calculate_metrics_run tons_dtype demand_dtype d (pre @ row # post) = Inr m" ..
  note v = calculate_metrics_run_values [OF run] and v' = calculate_metrics_run_values [OF rest]
  have day: "(\<Sum>r\<leftarrow>filter (\<lambda>r. e_date r = date) (pre @ row # post).
                 row_dist d r * diesel_emission_factor_kg_co2_per_km (config d))
             = (\<Sum>r\<leftarrow>filter (\<lambda>r. e_date r = date) (pre @ post).
                 row_dist d r * diesel_emission_factor_kg_co2_per_km (config d))" for date
    using zero by simp
  have "total_transport_emission (totals m) = total_transport_emission (totals m')"
    unfolding calculate_metrics_fields(4) [OF v] calculate_metrics_fields(4) [OF v'] day ..
  moreover have "total_round_trip_km m = total_round_trip_km m'"
    unfolding calculate_metrics_fields(1) [OF v] calculate_metrics_fields(1) [OF v']
    using zero by (simp add: sum_round_trip_km_def)
  moreover have "total_delivered_tons m = total_delivered_tons m' + tons_delivered row"
    unfolding calculate_metrics_fields(2) [OF v] calculate_metrics_fields(2) [OF v']
    by simp
  ultimately show ?thesis using run zero by blast
qed

lemma year_2025_starts: "year_dates 2025 = 739252 # [739253..<739617]"
  by (simp add: year_dates_def days_before_year_def upt_conv_Cons)

lemma dm_ex_registry: "stp_id ` set (stp_df dm_ex) = {''S1''}"
  by (simp add: dm_ex_simps)

text \<open>
  The claim as first stated does not hold of every row without a distance entry: a row of
  a day of the year from a plant that the registry lacks has no entry either, and the
  run raises KeyError when it takes the row's tons out of the storage dictionary.
\<close>

theorem C10_unregistered_plant_raises:
  "distance_matrix dm_ex (e_stp_id row_unknown_plant, e_farm_id row_unknown_plant) = None
   \<and> e_date row_unknown_plant \<in> set (year_dates (year (config dm_ex)))
   \<and> calculate_metrics_run Float64 Float64 dm_ex (one_truck @ [row_unknown_plant]) = Inl KeyError"
proof -
  have nodist: "distance_matrix dm_ex (e_stp_id row_unknown_plant, e_farm_id row_unknown_plant) = None"
    by (simp add: row_unknown_plant_def dm_ex_def DataManager_def compute_distance_matrix_def)
  have inyear: "e_date row_unknown_plant \<in> set (year_dates (year (config dm_ex)))"
    using first_day_2025 by (simp add: row_unknown_plant_def dm_ex_simps cfg_ex_def)
  have day: "metrics_day dm_ex (one_truck @ [row_unknown_plant]) 739252 initial_tally = Inl KeyError"
    by (simp add: metrics_day_def Let_def one_truck_def row_unknown_plant_def process_move_def
        dm_ex_simps dm_ex_demand [OF first_day_2025])
  have "calculate_metrics dm_ex (one_truck @ [row_unknown_plant]) = Inl KeyError"
    by (simp add: calculate_metrics_def dm_ex_simps(1) cfg_ex_def year_2025_starts day)
  then have "calculate_metrics_run Float64 Float64 dm_ex (one_truck @ [row_unknown_plant]) = Inl KeyError"
    by (simp add: calculate_metrics_run_def one_truck_def)
  with nodist inyear show ?thesis by blast
qed

theorem C10_unknown_farm_witness:
  "\<exists>m m'. calculate_metrics_run Float64 Float64 dm_ex one_truck = Inr m'
     \<and> calculate_metrics_run Float64 Float64 dm_ex (one_truck @ [row_unknown_farm]) = Inr m
     \<and> distance_matrix dm_ex (e_stp_id row_unknown_farm, e_farm_id row_unknown_farm) = None
     \<and> total_transport_emission (totals m) = total_transport_emission (totals m')
     \<and> total_round_trip_km m = total_round_trip_km m'
     \<and> total_delivered_tons m = total_delivered_tons m' + 10"
proof -
  have nodist: "distance_matrix dm_ex (e_stp_id row_unknown_farm, e_farm_id row_unknown_farm) = None"
    by (simp add: row_unknown_farm_def dm_ex_distance)
  have plant: "e_stp_id row_unknown_farm \<in> stp_id ` set (stp_df dm_ex)"
    by (simp add: row_unknown_farm_def dm_ex_simps)
  have dem: "e_date row_unknown_farm \<notin> set (year_dates (year (config dm_ex)))
              \<or> (\<exists>dem. get_demand_for_day dm_ex (e_date row_unknown_farm) = Inr dem)"
    using dm_ex_demand [OF first_day_2025] by (simp add: row_unknown_farm_def)
  have "\<exists>m'. calculate_metrics_run Float64 Float64 dm_ex one_truck = Inr m'"
    unfolding calculate_metrics_run_ok_iff day_replays_def
    by (simp add: one_truck_def dm_ex_simps cfg_ex_def dm_ex_demand dist_column_dtype_def
        dm_ex_distance)
  then obtain m' where rest: "calculate_metrics_run Float64 Float64 dm_ex (one_truck @ []) = Inr m'"
    by auto
  from C10_unknown_farm_counts_as_zero [OF nodist plant dem rest] nodist rest
  show ?thesis by (auto simp: row_unknown_farm_def)
qed

end
